theory Spec2Isabelle
  imports Complex_Main
begin

section \<open>Scalars of the element type\<close>

text \<open>
  The operator is instantiated at \<open>float\<close> and \<open>double\<close>. A scalar is either
  not-a-number or a finite real; rounding and overflow to infinity are left out, and
  every operation propagates not-a-number the way IEEE arithmetic does. Comparisons
  with not-a-number are false. The properties below concern control flow, indices and
  which value is copied where; they do not depend on rounding.
  C \<open>int\<close> is modelled by \<open>int\<close>. The bounds and the counters of the two window
  loops depend on \<open>kernel_size\<close>, which can be any 32-bit value: they are checked
  against the 32-bit range, and leaving it is an error of the model as it is undefined
  behaviour in the source. The index arithmetic stays inside the range whenever no
  buffer has more than \<open>2147483647\<close> elements, which the theorems that assert a
  result require.
\<close>

datatype fl = NaN | Fin real

fun isnan :: "fl \<Rightarrow> bool" where
  "isnan NaN = True"
| "isnan (Fin a) = False"

fun fadd :: "fl \<Rightarrow> fl \<Rightarrow> fl" where
  "fadd (Fin a) (Fin b) = Fin (a + b)"
| "fadd _ _ = NaN"

fun fsub :: "fl \<Rightarrow> fl \<Rightarrow> fl" where
  "fsub (Fin a) (Fin b) = Fin (a - b)"
| "fsub _ _ = NaN"

fun fmul :: "fl \<Rightarrow> fl \<Rightarrow> fl" where
  "fmul (Fin a) (Fin b) = Fin (a * b)"
| "fmul _ _ = NaN"

fun fsqrt :: "fl \<Rightarrow> fl" where
  "fsqrt (Fin a) = (if a < 0 then NaN else Fin (sqrt a))"
| "fsqrt NaN = NaN"

fun flt :: "fl \<Rightarrow> fl \<Rightarrow> bool" where
  "flt (Fin a) (Fin b) = (a < b)"
| "flt _ _ = False"

fun fgt :: "fl \<Rightarrow> fl \<Rightarrow> bool" where
  "fgt (Fin a) (Fin b) = (a > b)"
| "fgt _ _ = False"

fun fge :: "fl \<Rightarrow> fl \<Rightarrow> bool" where
  "fge (Fin a) (Fin b) = (a \<ge> b)"
| "fge _ _ = False"

fun fle :: "fl \<Rightarrow> fl \<Rightarrow> bool" where
  "fle (Fin a) (Fin b) = (a \<le> b)"
| "fle _ _ = False"

definition of_int_fl :: "int \<Rightarrow> fl" where
  "of_int_fl i = Fin (of_int i)"

section \<open>Errors, tensors and checked access\<close>

text \<open>
  \<open>InvalidArgument\<close> is the status the operator reports through \<open>OP_REQUIRES\<close>.
  A flat tensor view has no bounds check of its own; an access outside the buffer is
  undefined behaviour in the source and the value \<open>OutOfBounds\<close> here. Signed
  overflow of a loop bound or a loop counter is undefined behaviour in the source and
  the value \<open>SignedOverflow\<close> here.
\<close>

datatype error = InvalidArgument string | OutOfBounds | SignedOverflow

record tensor =
  dims :: "int list"
  flat :: "fl list"

definition dim_size :: "tensor \<Rightarrow> nat \<Rightarrow> int" where
  "dim_size t i = dims t ! i"

definition rd :: "fl list \<Rightarrow> int \<Rightarrow> error + fl" where
  "rd xs i = (if 0 \<le> i \<and> i < int (length xs) then Inr (xs ! nat i) else Inl OutOfBounds)"

definition wr :: "fl list \<Rightarrow> int \<Rightarrow> fl \<Rightarrow> error + fl list" where
  "wr xs i v = (if 0 \<le> i \<and> i < int (length xs) then Inr (xs[nat i := v]) else Inl OutOfBounds)"

text \<open>Arithmetic on the results of checked reads: the first failing read decides.\<close>

definition lift2 :: "(fl \<Rightarrow> fl \<Rightarrow> fl) \<Rightarrow> error + fl \<Rightarrow> error + fl \<Rightarrow> error + fl" where
  "lift2 f a b =
     (case a of Inl e \<Rightarrow> Inl e
      | Inr x \<Rightarrow> (case b of Inl e \<Rightarrow> Inl e | Inr y \<Rightarrow> Inr (f x y)))"

definition eadd :: "error + fl \<Rightarrow> error + fl \<Rightarrow> error + fl" where
  "eadd = lift2 fadd"

definition emul :: "error + fl \<Rightarrow> error + fl \<Rightarrow> error + fl" where
  "emul = lift2 fmul"

section \<open>Counting loops\<close>

text \<open>
  \<open>for_loop f lo hi s\<close> is \<open>for (int i = lo; i <= hi; i++) s = f(i, s)\<close>, stopping
  at the first error. A loop written \<open>i < n\<close> has \<open>hi = n - 1\<close>.
\<close>

function for_loop :: "(int \<Rightarrow> 's \<Rightarrow> error + 's) \<Rightarrow> int \<Rightarrow> int \<Rightarrow> 's \<Rightarrow> error + 's" where
  "for_loop f i hi s =
     (if i \<le> hi
      then (case f i s of Inl e \<Rightarrow> Inl e | Inr s' \<Rightarrow> for_loop f (i + 1) hi s')
      else Inr s)"
  by pat_completeness auto
termination
  by (relation "measure (\<lambda>(f, i, hi, s). nat (hi + 1 - i))") auto

declare for_loop.simps [simp del]

text \<open>
  \<open>window_loop f c k s\<close> is \<open>for (int i = c - k; i <= c + k; i++) s = f(i, s)\<close>
  with \<open>c - k\<close>, \<open>c + k\<close> and the counter computed in 32-bit \<open>int\<close>: the two bounds
  are evaluated before the first iteration, and when the loop runs, the increment after
  its last iteration computes \<open>c + k + 1\<close>.
\<close>

definition int32 :: "int \<Rightarrow> bool" where
  "int32 i \<longleftrightarrow> - 2147483648 \<le> i \<and> i \<le> 2147483647"

definition window_loop :: "(int \<Rightarrow> 's \<Rightarrow> error + 's) \<Rightarrow> int \<Rightarrow> int \<Rightarrow> 's \<Rightarrow> error + 's" where
  "window_loop f c k s =
     (if \<not> int32 (c - k) \<or> \<not> int32 (c + k) then Inl SignedOverflow
      else (case for_loop f (c - k) (c + k) s of Inl e \<Rightarrow> Inl e
            | Inr s' \<Rightarrow>
                if c - k \<le> c + k \<and> \<not> int32 (c + k + 1) then Inl SignedOverflow
                else Inr s'))"

section \<open>Operator construction\<close>

record attrs =
  kernel_size :: int
  threshold :: fl

text \<open>
  The three kernels (CPU forward, GPU forward, GPU gradient) have the same constructor:
  read \<open>kernel_size\<close>, require it non-negative, read \<open>threshold\<close>, require it
  non-negative.
\<close>

definition ComputeFlowOp :: "int \<Rightarrow> fl \<Rightarrow> error + attrs" where
  "ComputeFlowOp kernel_size_attr threshold_attr =
     (if \<not> kernel_size_attr \<ge> 0 then Inl (InvalidArgument ''Need kernel_size >= 0'')
      else if \<not> fge threshold_attr (Fin 0) then Inl (InvalidArgument ''Need threshold >= 0'')
      else Inr \<lparr>kernel_size = kernel_size_attr, threshold = threshold_attr\<rparr>)"

definition ComputeFlowOp_Gpu :: "int \<Rightarrow> fl \<Rightarrow> error + attrs" where
  "ComputeFlowOp_Gpu kernel_size_attr threshold_attr =
     (if \<not> kernel_size_attr \<ge> 0 then Inl (InvalidArgument ''Need kernel_size >= 0'')
      else if \<not> fge threshold_attr (Fin 0) then Inl (InvalidArgument ''Need threshold >= 0'')
      else Inr \<lparr>kernel_size = kernel_size_attr, threshold = threshold_attr\<rparr>)"

definition ComputeFlowGradOp :: "int \<Rightarrow> fl \<Rightarrow> error + attrs" where
  "ComputeFlowGradOp kernel_size_attr threshold_attr =
     (if \<not> kernel_size_attr \<ge> 0 then Inl (InvalidArgument ''Need kernel_size >= 0'')
      else if \<not> fge threshold_attr (Fin 0) then Inl (InvalidArgument ''Need threshold >= 0'')
      else Inr \<lparr>kernel_size = kernel_size_attr, threshold = threshold_attr\<rparr>)"

section \<open>The forward kernel on the CPU\<close>

text \<open>The flat views and extents that \<open>Compute\<close> takes from its four inputs.\<close>

record inputs =
  bottom_data_flat :: "fl list"
  im_points :: "fl list"
  im_depth :: "fl list"
  meta_data :: "fl list"
  batch_size :: int
  height :: int
  width :: int
  num_channels :: int
  num_meta_data :: int

text \<open>The two output buffers.\<close>

record outputs =
  top_data :: "fl list"
  top_points :: "fl list"

type_synonym point = "fl \<times> fl \<times> fl"

subsection \<open>Backprojection of a pixel\<close>

definition md :: "inputs \<Rightarrow> int \<Rightarrow> int \<Rightarrow> error + fl" where
  "md I index_meta_data k = rd (meta_data I) (index_meta_data + k)"

definition ray :: "inputs \<Rightarrow> int \<Rightarrow> int \<Rightarrow> int \<Rightarrow> int \<Rightarrow> error + fl" where
  "ray I m k w h =
     eadd (eadd (emul (md I m k) (Inr (of_int_fl w))) (emul (md I m (k + 1)) (Inr (of_int_fl h))))
          (md I m (k + 2))"

definition pose_row ::
  "inputs \<Rightarrow> int \<Rightarrow> int \<Rightarrow> error + fl \<Rightarrow> error + fl \<Rightarrow> error + fl \<Rightarrow> error + fl" where
  "pose_row I m k X Y Z =
     eadd (eadd (eadd (emul (md I m k) X) (emul (md I m (k + 1)) Y)) (emul (md I m (k + 2)) Z))
          (md I m (k + 3))"

definition backproject :: "inputs \<Rightarrow> int \<Rightarrow> int \<Rightarrow> int \<Rightarrow> fl \<Rightarrow> error + point" where
  "backproject I index_meta_data w h depth =
     (let RX = ray I index_meta_data 9 w h;
          RY = ray I index_meta_data 12 w h;
          RZ = ray I index_meta_data 15 w h;
          X = emul (Inr depth) RX;
          Y = emul (Inr depth) RY;
          Z = emul (Inr depth) RZ
      in case pose_row I index_meta_data 30 X Y Z of Inl e \<Rightarrow> Inl e
         | Inr X1 \<Rightarrow>
       (case pose_row I index_meta_data 34 X Y Z of Inl e \<Rightarrow> Inl e
         | Inr Y1 \<Rightarrow>
       (case pose_row I index_meta_data 38 X Y Z of Inl e \<Rightarrow> Inl e
         | Inr Z1 \<Rightarrow> Inr (X1, Y1, Z1))))"

subsection \<open>The neighbourhood search\<close>

record best =
  dmin :: fl
  fx :: int
  fy :: int

definition dis3 :: "point \<Rightarrow> point \<Rightarrow> fl" where
  "dis3 P Q =
     (case P of (X1, Y1, Z1) \<Rightarrow> (case Q of (X_prev, Y_prev, Z_prev) \<Rightarrow>
        fsqrt (fadd (fadd (fmul (fsub X1 X_prev) (fsub X1 X_prev))
                          (fmul (fsub Y1 Y_prev) (fsub Y1 Y_prev)))
                    (fmul (fsub Z1 Z_prev) (fsub Z1 Z_prev)))))"

definition prev_point :: "inputs \<Rightarrow> int \<Rightarrow> error + point" where
  "prev_point I index =
     (case rd (im_points I) (index * 3 + 0) of Inl e \<Rightarrow> Inl e
      | Inr X_prev \<Rightarrow>
     (case rd (im_points I) (index * 3 + 1) of Inl e \<Rightarrow> Inl e
      | Inr Y_prev \<Rightarrow>
     (case rd (im_points I) (index * 3 + 2) of Inl e \<Rightarrow> Inl e
      | Inr Z_prev \<Rightarrow> Inr (X_prev, Y_prev, Z_prev))))"

definition neighbour :: "inputs \<Rightarrow> int \<Rightarrow> point \<Rightarrow> int \<Rightarrow> int \<Rightarrow> best \<Rightarrow> error + best" where
  "neighbour I n P x y b =
     (if x \<ge> 0 \<and> x < width I \<and> y \<ge> 0 \<and> y < height I then
        (let index = n * height I * width I + y * width I + x in
         case prev_point I index of Inl e \<Rightarrow> Inl e
         | Inr (X_prev, Y_prev, Z_prev) \<Rightarrow>
             if isnan X_prev \<or> isnan Y_prev \<or> isnan Z_prev then Inr b
             else (let dis = dis3 P (X_prev, Y_prev, Z_prev) in
                   if flt dis (dmin b) then Inr \<lparr>dmin = dis, fx = x, fy = y\<rparr>
                   else Inr b))
      else Inr b)"

definition search :: "inputs \<Rightarrow> int \<Rightarrow> int \<Rightarrow> int \<Rightarrow> int \<Rightarrow> point \<Rightarrow> error + best" where
  "search I k n h w P =
     window_loop (\<lambda>x. window_loop (\<lambda>y. neighbour I n P x y) h k) w k
       \<lparr>dmin = Fin 1000, fx = - 1, fy = - 1\<rparr>"

subsection \<open>One pixel\<close>

definition init_pixel :: "inputs \<Rightarrow> int \<Rightarrow> outputs \<Rightarrow> error + outputs" where
  "init_pixel I index_pixel T =
     (case for_loop (\<lambda>c td. wr td (index_pixel * num_channels I + c) (Fin 0))
             0 (num_channels I - 1) (top_data T) of Inl e \<Rightarrow> Inl e
      | Inr td \<Rightarrow>
     (case wr (top_points T) (index_pixel * 3 + 0) NaN of Inl e \<Rightarrow> Inl e
      | Inr tp0 \<Rightarrow>
     (case wr tp0 (index_pixel * 3 + 1) NaN of Inl e \<Rightarrow> Inl e
      | Inr tp1 \<Rightarrow>
     (case wr tp1 (index_pixel * 3 + 2) NaN of Inl e \<Rightarrow> Inl e
      | Inr tp2 \<Rightarrow> Inr \<lparr>top_data = td, top_points = tp2\<rparr>))))"

definition store_point :: "int \<Rightarrow> point \<Rightarrow> fl list \<Rightarrow> error + fl list" where
  "store_point index_pixel P tp =
     (case P of (X1, Y1, Z1) \<Rightarrow>
       (case wr tp (index_pixel * 3 + 0) X1 of Inl e \<Rightarrow> Inl e
        | Inr tp0 \<Rightarrow>
       (case wr tp0 (index_pixel * 3 + 1) Y1 of Inl e \<Rightarrow> Inl e
        | Inr tp1 \<Rightarrow> wr tp1 (index_pixel * 3 + 2) Z1)))"

definition assign_data :: "inputs \<Rightarrow> int \<Rightarrow> int \<Rightarrow> fl list \<Rightarrow> error + fl list" where
  "assign_data I index_pixel index td0 =
     for_loop (\<lambda>c td.
         case rd (bottom_data_flat I) (index * num_channels I + c) of Inl e \<Rightarrow> Inl e
         | Inr v \<Rightarrow> wr td (index_pixel * num_channels I + c) v)
       0 (num_channels I - 1) td0"

definition pixel :: "attrs \<Rightarrow> inputs \<Rightarrow> int \<Rightarrow> int \<Rightarrow> int \<Rightarrow> int \<Rightarrow> outputs \<Rightarrow> error + outputs" where
  "pixel A I index_meta_data n h w T =
     (let index_pixel = n * height I * width I + h * width I + w in
      case init_pixel I index_pixel T of Inl e \<Rightarrow> Inl e
      | Inr T1 \<Rightarrow>
     (case rd (im_depth I) index_pixel of Inl e \<Rightarrow> Inl e
      | Inr depth \<Rightarrow>
        if fgt depth (Fin 0) then
          (case backproject I index_meta_data w h depth of Inl e \<Rightarrow> Inl e
           | Inr P \<Rightarrow>
          (case store_point index_pixel P (top_points T1) of Inl e \<Rightarrow> Inl e
           | Inr tp \<Rightarrow>
          (case search I (kernel_size A) n h w P of Inl e \<Rightarrow> Inl e
           | Inr b \<Rightarrow>
             if flt (dmin b) (threshold A) then
               (let index = n * height I * width I + fy b * width I + fx b in
                case assign_data I index_pixel index (top_data T1) of Inl e \<Rightarrow> Inl e
                | Inr td \<Rightarrow> Inr \<lparr>top_data = td, top_points = tp\<rparr>)
             else Inr \<lparr>top_data = top_data T1, top_points = tp\<rparr>)))
        else Inr T1))"

subsection \<open>The three pixel loops\<close>

definition batch_element :: "attrs \<Rightarrow> inputs \<Rightarrow> int \<Rightarrow> outputs \<times> int \<Rightarrow> error + outputs \<times> int" where
  "batch_element A I n S =
     (case S of (T, index_meta_data) \<Rightarrow>
       (case for_loop (\<lambda>h. for_loop (\<lambda>w. pixel A I index_meta_data n h w) 0 (width I - 1))
               0 (height I - 1) T of Inl e \<Rightarrow> Inl e
        | Inr T' \<Rightarrow> Inr (T', index_meta_data + num_meta_data I)))"

definition forward :: "attrs \<Rightarrow> inputs \<Rightarrow> outputs \<Rightarrow> error + outputs" where
  "forward A I T =
     (case for_loop (batch_element A I) 0 (batch_size I - 1) (T, 0) of Inl e \<Rightarrow> Inl e
      | Inr (T', index_meta_data) \<Rightarrow> Inr T')"

subsection \<open>Compute\<close>

text \<open>
  \<open>Compute\<close> checks the rank of its four inputs, takes the extents from the feature
  tensor and the record length from the metadata tensor, allocates the two outputs
  and runs the loops. \<open>allocate_output\<close> returns buffers of the requested shape with
  unspecified contents: \<open>u\<close> stands for what they hold before the loops write them.
\<close>

definition flat_views :: "tensor \<Rightarrow> tensor \<Rightarrow> tensor \<Rightarrow> tensor \<Rightarrow> inputs" where
  "flat_views bottom_data bottom_points bottom_depth bottom_meta_data =
     \<lparr>bottom_data_flat = flat bottom_data,
      im_points = flat bottom_points,
      im_depth = flat bottom_depth,
      meta_data = flat bottom_meta_data,
      batch_size = dim_size bottom_data 0,
      height = dim_size bottom_data 1,
      width = dim_size bottom_data 2,
      num_channels = dim_size bottom_data 3,
      num_meta_data = dim_size bottom_meta_data 3\<rparr>"

definition allocate_outputs :: "inputs \<Rightarrow> fl \<Rightarrow> outputs" where
  "allocate_outputs I u =
     \<lparr>top_data = replicate (nat (batch_size I * height I * width I * num_channels I)) u,
      top_points = replicate (nat (batch_size I * height I * width I * 3)) u\<rparr>"

definition Compute ::
  "attrs \<Rightarrow> tensor \<Rightarrow> tensor \<Rightarrow> tensor \<Rightarrow> tensor \<Rightarrow> fl \<Rightarrow> error + outputs" where
  "Compute A bottom_data bottom_points bottom_depth bottom_meta_data u =
     (if length (dims bottom_data) \<noteq> 4 then Inl (InvalidArgument ''data must be 4-dimensional'')
      else if length (dims bottom_points) \<noteq> 4 then Inl (InvalidArgument ''points must be 4-dimensional'')
      else if length (dims bottom_depth) \<noteq> 4 then Inl (InvalidArgument ''depth must be 4-dimensional'')
      else if length (dims bottom_meta_data) \<noteq> 4 then Inl (InvalidArgument ''meta data must be 4-dimensional'')
      else
        (let I = flat_views bottom_data bottom_points bottom_depth bottom_meta_data
         in forward A I (allocate_outputs I u)))"

section \<open>Vocabulary of the properties\<close>

text \<open>
  The pixel index of the source, the search window, the image bounds, the test for an
  undefined point, and the scan order of the two window loops (columns outside, rows
  inside).
\<close>

definition pixel_index :: "inputs \<Rightarrow> int \<Rightarrow> int \<Rightarrow> int \<Rightarrow> int" where
  "pixel_index I n y x = n * height I * width I + y * width I + x"

definition in_window :: "int \<Rightarrow> int \<Rightarrow> int \<Rightarrow> int \<Rightarrow> int \<Rightarrow> bool" where
  "in_window k h w x y \<longleftrightarrow> w - k \<le> x \<and> x \<le> w + k \<and> h - k \<le> y \<and> y \<le> h + k"

definition in_image :: "inputs \<Rightarrow> int \<Rightarrow> int \<Rightarrow> bool" where
  "in_image I x y \<longleftrightarrow> 0 \<le> x \<and> x < width I \<and> 0 \<le> y \<and> y < height I"

definition has_nan :: "point \<Rightarrow> bool" where
  "has_nan Q = (case Q of (X, Y, Z) \<Rightarrow> isnan X \<or> isnan Y \<or> isnan Z)"

definition valid_neighbour :: "inputs \<Rightarrow> int \<Rightarrow> int \<Rightarrow> int \<Rightarrow> point \<Rightarrow> bool" where
  "valid_neighbour I n x y Q \<longleftrightarrow>
     in_image I x y \<and> prev_point I (pixel_index I n y x) = Inr Q \<and> \<not> has_nan Q"

definition scan_le :: "int \<Rightarrow> int \<Rightarrow> int \<Rightarrow> int \<Rightarrow> bool" where
  "scan_le x y x' y' \<longleftrightarrow> x < x' \<or> (x = x' \<and> y \<le> y')"

definition unmatched :: "best \<Rightarrow> bool" where
  "unmatched b \<longleftrightarrow> dmin b = Fin 1000 \<and> fx b = - 1 \<and> fy b = - 1"

definition best_of :: "inputs \<Rightarrow> int \<Rightarrow> point \<Rightarrow> (int \<times> int) set \<Rightarrow> best \<Rightarrow> bool" where
  "best_of I n P S b \<longleftrightarrow>
     (\<forall>x y Q. (x, y) \<in> S \<and> valid_neighbour I n x y Q \<longrightarrow>
         \<not> flt (dis3 P Q) (dmin b) \<and> (dis3 P Q = dmin b \<longrightarrow> scan_le (fx b) (fy b) x y)) \<and>
     (unmatched b \<or>
      ((fx b, fy b) \<in> S \<and> flt (dmin b) (Fin 1000) \<and>
       (\<exists>Q. valid_neighbour I n (fx b) (fy b) Q \<and> dmin b = dis3 P Q)))"

definition window :: "int \<Rightarrow> int \<Rightarrow> int \<Rightarrow> (int \<times> int) set" where
  "window k h w = {(x, y). in_window k h w x y}"

text \<open>
  What the outputs hold at one pixel: the point stored at a pixel index, a feature
  vector of zeros, a feature vector copied from a pixel of the input features, buffers
  that agree outside the slots of one pixel, and the contents of the slots of a pixel
  once its iteration has run.
\<close>

definition point_at :: "fl list \<Rightarrow> int \<Rightarrow> error + point" where
  "point_at tp index_pixel =
     (case rd tp (index_pixel * 3 + 0) of Inl e \<Rightarrow> Inl e
      | Inr X \<Rightarrow>
     (case rd tp (index_pixel * 3 + 1) of Inl e \<Rightarrow> Inl e
      | Inr Y \<Rightarrow>
     (case rd tp (index_pixel * 3 + 2) of Inl e \<Rightarrow> Inl e
      | Inr Z \<Rightarrow> Inr (X, Y, Z))))"

definition zero_feature :: "inputs \<Rightarrow> fl list \<Rightarrow> int \<Rightarrow> bool" where
  "zero_feature I td index_pixel \<longleftrightarrow>
     (\<forall>c. 0 \<le> c \<and> c < num_channels I \<longrightarrow>
          rd td (index_pixel * num_channels I + c) = Inr (Fin 0))"

definition copied_feature :: "inputs \<Rightarrow> fl list \<Rightarrow> int \<Rightarrow> int \<Rightarrow> bool" where
  "copied_feature I td index_pixel index \<longleftrightarrow>
     (\<forall>c. 0 \<le> c \<and> c < num_channels I \<longrightarrow>
          (\<exists>v. rd (bottom_data_flat I) (index * num_channels I + c) = Inr v \<and>
               rd td (index_pixel * num_channels I + c) = Inr v))"

definition same_outside :: "inputs \<Rightarrow> int \<Rightarrow> outputs \<Rightarrow> outputs \<Rightarrow> bool" where
  "same_outside I index_pixel T T' \<longleftrightarrow>
     length (top_data T') = length (top_data T) \<and>
     length (top_points T') = length (top_points T) \<and>
     (\<forall>i. \<not> (index_pixel * num_channels I \<le> i \<and> i < index_pixel * num_channels I + num_channels I) \<longrightarrow>
          rd (top_data T') i = rd (top_data T) i) \<and>
     (\<forall>i. \<not> (index_pixel * 3 \<le> i \<and> i < index_pixel * 3 + 3) \<longrightarrow>
          rd (top_points T') i = rd (top_points T) i)"

definition pixel_post :: "attrs \<Rightarrow> inputs \<Rightarrow> int \<Rightarrow> int \<Rightarrow> int \<Rightarrow> int \<Rightarrow> outputs \<Rightarrow> bool" where
  "pixel_post A I index_meta_data n h w T \<longleftrightarrow>
     (\<exists>depth. rd (im_depth I) (pixel_index I n h w) = Inr depth \<and>
        (if fgt depth (Fin 0) then
           (\<exists>P b. backproject I index_meta_data w h depth = Inr P \<and>
                  point_at (top_points T) (pixel_index I n h w) = Inr P \<and>
                  search I (kernel_size A) n h w P = Inr b \<and>
                  (if flt (dmin b) (threshold A)
                   then copied_feature I (top_data T) (pixel_index I n h w)
                          (pixel_index I n (fy b) (fx b))
                   else zero_feature I (top_data T) (pixel_index I n h w)))
         else point_at (top_points T) (pixel_index I n h w) = Inr (NaN, NaN, NaN) \<and>
              zero_feature I (top_data T) (pixel_index I n h w)))"

definition valid_pixel :: "inputs \<Rightarrow> int \<Rightarrow> int \<Rightarrow> int \<Rightarrow> bool" where
  "valid_pixel I n h w \<longleftrightarrow>
     0 \<le> n \<and> n < batch_size I \<and> 0 \<le> h \<and> h < height I \<and> 0 \<le> w \<and> w < width I"

definition done_upto :: "attrs \<Rightarrow> inputs \<Rightarrow> int \<Rightarrow> outputs \<Rightarrow> bool" where
  "done_upto A I k T \<longleftrightarrow>
     (\<forall>n h w. valid_pixel I n h w \<and> pixel_index I n h w < k \<longrightarrow>
        pixel_post A I (n * num_meta_data I) n h w T)"

text \<open>
  The reprojection as the specification words it: the inverse intrinsic matrix applied
  to the homogeneous pixel coordinate, the ray scaled by the depth, and the affine
  live-to-world pose (three rows of four values) applied to the result. The matrices
  are read from the metadata record of one batch element.
\<close>

definition dot3 :: "point \<Rightarrow> point \<Rightarrow> fl" where
  "dot3 r v = (case r of (a, b, c) \<Rightarrow> (case v of (x, y, z) \<Rightarrow>
     fadd (fadd (fmul a x) (fmul b y)) (fmul c z)))"

definition mat_vec :: "point \<times> point \<times> point \<Rightarrow> point \<Rightarrow> point" where
  "mat_vec M v = (case M of (r1, r2, r3) \<Rightarrow> (dot3 r1 v, dot3 r2 v, dot3 r3 v))"

definition scale :: "fl \<Rightarrow> point \<Rightarrow> point" where
  "scale d v = (case v of (x, y, z) \<Rightarrow> (fmul d x, fmul d y, fmul d z))"

definition affine :: "(point \<times> fl) \<times> (point \<times> fl) \<times> (point \<times> fl) \<Rightarrow> point \<Rightarrow> point" where
  "affine Ps v = (case Ps of ((r1, t1), (r2, t2), (r3, t3)) \<Rightarrow>
     (fadd (dot3 r1 v) t1, fadd (dot3 r2 v) t2, fadd (dot3 r3 v) t3))"

definition meta_record :: "inputs \<Rightarrow> int \<Rightarrow> fl list" where
  "meta_record I n = take (nat (num_meta_data I)) (drop (nat (n * num_meta_data I)) (meta_data I))"

definition inverse_intrinsics :: "fl list \<Rightarrow> point \<times> point \<times> point" where
  "inverse_intrinsics r = ((r ! 9, r ! 10, r ! 11), (r ! 12, r ! 13, r ! 14), (r ! 15, r ! 16, r ! 17))"

definition pose_live2world :: "fl list \<Rightarrow> (point \<times> fl) \<times> (point \<times> fl) \<times> (point \<times> fl)" where
  "pose_live2world r =
     (((r ! 30, r ! 31, r ! 32), r ! 33),
      ((r ! 34, r ! 35, r ! 36), r ! 37),
      ((r ! 38, r ! 39, r ! 40), r ! 41))"

definition reproject_spec :: "fl list \<Rightarrow> int \<Rightarrow> int \<Rightarrow> fl \<Rightarrow> point" where
  "reproject_spec r w h d =
     affine (pose_live2world r)
       (scale d (mat_vec (inverse_intrinsics r) (of_int_fl w, of_int_fl h, Fin 1)))"

text \<open>
  Batch elements in another order: the chunks of a flat buffer, one for each batch
  element, concatenated in the order \<open>p\<close>.
\<close>

definition batch_chunk :: "nat \<Rightarrow> 'a list \<Rightarrow> nat \<Rightarrow> 'a list" where
  "batch_chunk len xs n = take len (drop (n * len) xs)"

definition permute_batch :: "nat list \<Rightarrow> nat \<Rightarrow> 'a list \<Rightarrow> 'a list" where
  "permute_batch p len xs = concat (map (batch_chunk len xs) p)"

definition permute_tensor :: "nat list \<Rightarrow> tensor \<Rightarrow> tensor" where
  "permute_tensor p t =
     \<lparr>dims = dims t,
      flat = permute_batch p (nat (dims t ! 1 * dims t ! 2 * dims t ! 3)) (flat t)\<rparr>"

definition permute_outputs :: "nat list \<Rightarrow> nat \<Rightarrow> outputs \<Rightarrow> outputs" where
  "permute_outputs p channels T =
     \<lparr>top_data = permute_batch p channels (top_data T),
      top_points = permute_batch p 3 (top_points T)\<rparr>"

text \<open>
  Inputs whose flat buffers have the extents of their shapes, each of at most
  \<open>2147483647\<close> elements, with a metadata record of at least 42 values for each batch
  element.
\<close>

definition well_shaped :: "inputs \<Rightarrow> bool" where
  "well_shaped I \<longleftrightarrow>
     0 \<le> batch_size I \<and> 0 \<le> height I \<and> 0 \<le> width I \<and> 0 \<le> num_channels I \<and>
     42 \<le> num_meta_data I \<and>
     int (length (bottom_data_flat I)) = batch_size I * height I * width I * num_channels I \<and>
     int (length (im_points I)) = batch_size I * height I * width I * 3 \<and>
     int (length (im_depth I)) = batch_size I * height I * width I \<and>
     int (length (meta_data I)) = batch_size I * num_meta_data I \<and>
     batch_size I * height I * width I * num_channels I \<le> 2147483647 \<and>
     batch_size I * height I * width I * 3 \<le> 2147483647 \<and>
     batch_size I * num_meta_data I \<le> 2147483647"

text \<open>
  The bounds and counters of the two window loops around the pixel at row \<open>h\<close>, column
  \<open>w\<close> stay inside the 32-bit range; and a non-negative \<open>kernel_size\<close> for which they
  do so at every pixel of the image.
\<close>

definition window_fits :: "int \<Rightarrow> int \<Rightarrow> int \<Rightarrow> bool" where
  "window_fits k h w \<longleftrightarrow>
     int32 (w - k) \<and> int32 (w + k) \<and> int32 (w + k + 1) \<and>
     int32 (h - k) \<and> int32 (h + k) \<and> int32 (h + k + 1)"

definition kernel_fits :: "attrs \<Rightarrow> inputs \<Rightarrow> bool" where
  "kernel_fits A I \<longleftrightarrow>
     0 \<le> kernel_size A \<and> width I + kernel_size A \<le> 2147483647 \<and>
     height I + kernel_size A \<le> 2147483647"

text \<open>A constructor that ended with status \<open>InvalidArgument\<close>.\<close>

definition rejected :: "error + attrs \<Rightarrow> bool" where
  "rejected r = (case r of Inl (InvalidArgument m) \<Rightarrow> True | _ \<Rightarrow> False)"

text \<open>Output buffers of the extents that \<open>Compute\<close> allocates.\<close>

definition allocated :: "inputs \<Rightarrow> outputs \<Rightarrow> bool" where
  "allocated I T \<longleftrightarrow>
     int (length (top_data T)) = batch_size I * height I * width I * num_channels I \<and>
     int (length (top_points T)) = batch_size I * height I * width I * 3"

section \<open>Example inputs\<close>

text \<open>
  One row of four pixels. Seen from the point \<open>(0, 0, 0)\<close>, the previous points are
  at distance 2000, partially not-a-number, at distance 5 and at distance 5.
\<close>

definition row4 :: inputs where
  "row4 = \<lparr>bottom_data_flat = [Fin 10, Fin 11, Fin 12, Fin 13],
           im_points = [Fin 0, Fin 0, Fin 2000,  NaN, Fin 0, Fin 0,  Fin 3, Fin 4, Fin 0,  Fin 0, Fin 5, Fin 0],
           im_depth = [Fin 1, Fin 1, Fin 1, Fin 1],
           meta_data = replicate 42 (Fin 0),
           batch_size = 1, height = 1, width = 4, num_channels = 1, num_meta_data = 42\<rparr>"





text \<open>
  One row of three pixels whose previous points are all at distance 2000 from the
  point \<open>(0, 0, 0)\<close>.
\<close>

definition tied_far :: inputs where
  "tied_far = \<lparr>bottom_data_flat = [Fin 10, Fin 11, Fin 12],
               im_points = [Fin 0, Fin 0, Fin 2000,  Fin 0, Fin 2000, Fin 0,  Fin 2000, Fin 0, Fin 0],
               im_depth = [Fin 1, Fin 1, Fin 1],
               meta_data = replicate 42 (Fin 0),
               batch_size = 1, height = 1, width = 3, num_channels = 1, num_meta_data = 42\<rparr>"

text \<open>
  A grid of three rows and three columns with depth 1 everywhere but 0 at the centre,
  an identity camera (intrinsics, inverse intrinsics and both poses), and as previous
  points the points that the pass itself computes for this grid.
\<close>

definition grid_attrs :: attrs where
  "grid_attrs = \<lparr>kernel_size = 1, threshold = Fin 1000\<rparr>"

definition grid_data :: "fl list \<Rightarrow> tensor" where
  "grid_data ds = \<lparr>dims = [1, 3, 3, 1], flat = ds\<rparr>"

definition grid_depth :: tensor where
  "grid_depth = \<lparr>dims = [1, 3, 3, 1],
     flat = [Fin 1, Fin 1, Fin 1,  Fin 1, Fin 0, Fin 1,  Fin 1, Fin 1, Fin 1]\<rparr>"

definition grid_meta :: tensor where
  "grid_meta = \<lparr>dims = [1, 1, 1, 48],
     flat = [Fin 1, Fin 0, Fin 0,  Fin 0, Fin 1, Fin 0,  Fin 0, Fin 0, Fin 1,
             Fin 1, Fin 0, Fin 0,  Fin 0, Fin 1, Fin 0,  Fin 0, Fin 0, Fin 1,
             Fin 1, Fin 0, Fin 0, Fin 0,  Fin 0, Fin 1, Fin 0, Fin 0,  Fin 0, Fin 0, Fin 1, Fin 0,
             Fin 1, Fin 0, Fin 0, Fin 0,  Fin 0, Fin 1, Fin 0, Fin 0,  Fin 0, Fin 0, Fin 1, Fin 0,
             Fin 1, Fin 1, Fin 1,  Fin 0, Fin 0, Fin 0]\<rparr>"

definition grid_points :: tensor where
  "grid_points = \<lparr>dims = [1, 3, 3, 3],
     flat = [Fin 0, Fin 0, Fin 1,  Fin 1, Fin 0, Fin 1,  Fin 2, Fin 0, Fin 1,
             Fin 0, Fin 1, Fin 1,  NaN, NaN, NaN,        Fin 2, Fin 1, Fin 1,
             Fin 0, Fin 2, Fin 1,  Fin 1, Fin 2, Fin 1,  Fin 2, Fin 2, Fin 1]\<rparr>"

definition grid_inputs :: inputs where
  "grid_inputs = flat_views
     (grid_data [Fin 10, Fin 11, Fin 12, Fin 13, Fin 14, Fin 15, Fin 16, Fin 17, Fin 18])
     grid_points grid_depth grid_meta"

text \<open>
  Inputs with a threshold above 1000 and no defined previous point: two batch elements
  of two by two pixels, one batch element of one pixel, and three batch elements of
  one pixel.
\<close>

definition lone_attrs :: attrs where
  "lone_attrs = \<lparr>kernel_size = 1, threshold = Fin 5000\<rparr>"

definition lone_data :: tensor where
  "lone_data = \<lparr>dims = [2, 2, 2, 1],
     flat = [Fin 1, Fin 2, Fin 3, Fin 4, Fin 5, Fin 6, Fin 7, Fin 8]\<rparr>"

definition lone_points :: tensor where
  "lone_points = \<lparr>dims = [2, 2, 2, 3], flat = replicate 24 NaN\<rparr>"

definition lone_depth :: tensor where
  "lone_depth = \<lparr>dims = [2, 2, 2, 1],
     flat = [Fin 0, Fin 0, Fin 0, Fin 0, Fin 1, Fin 0, Fin 0, Fin 0]\<rparr>"

definition lone_meta :: tensor where
  "lone_meta = \<lparr>dims = [2, 1, 1, 42], flat = replicate 84 (Fin 0)\<rparr>"

definition single_data :: tensor where
  "single_data = \<lparr>dims = [1, 1, 1, 1], flat = [Fin 7]\<rparr>"

definition single_points :: tensor where
  "single_points = \<lparr>dims = [1, 1, 1, 3], flat = [NaN, NaN, NaN]\<rparr>"

definition single_depth :: tensor where
  "single_depth = \<lparr>dims = [1, 1, 1, 1], flat = [Fin 1]\<rparr>"

definition single_meta :: tensor where
  "single_meta = \<lparr>dims = [1, 1, 1, 42], flat = replicate 42 (Fin 0)\<rparr>"

definition far_attrs :: attrs where
  "far_attrs = \<lparr>kernel_size = 0, threshold = Fin 2000\<rparr>"

definition three_data :: tensor where
  "three_data = \<lparr>dims = [3, 1, 1, 1], flat = [Fin 5, Fin 6, Fin 7]\<rparr>"

definition three_points :: tensor where
  "three_points = \<lparr>dims = [3, 1, 1, 3], flat = replicate 9 NaN\<rparr>"

definition three_depth :: tensor where
  "three_depth = \<lparr>dims = [3, 1, 1, 1], flat = [Fin 0, Fin 0, Fin 1]\<rparr>"

definition three_meta :: tensor where
  "three_meta = \<lparr>dims = [3, 1, 1, 42], flat = replicate 126 (Fin 0)\<rparr>"

section \<open>Reasoning about loops\<close>

lemma for_loop_step: "i \<le> hi \<Longrightarrow> for_loop f i hi s = (case f i s of Inl e \<Rightarrow> Inl e | Inr s' \<Rightarrow> for_loop f (i + 1) hi s')"
  by (subst for_loop.simps) simp

lemma for_loop_done: "\<not> i \<le> hi \<Longrightarrow> for_loop f i hi s = Inr s"
  by (subst for_loop.simps) simp

lemma for_loop_rule:
  assumes "for_loop f lo hi s = Inr s'"
    and "Inv lo s"
    and "\<And>i t t'. lo \<le> i \<Longrightarrow> i \<le> hi \<Longrightarrow> Inv i t \<Longrightarrow> f i t = Inr t' \<Longrightarrow> Inv (i + 1) t'"
  shows "Inv (max lo (hi + 1)) s'"
  using assms
proof (induction f lo hi s rule: for_loop.induct)
  case (1 f i hi s)
  show ?case
  proof (cases "i \<le> hi")
    case True
    from "1.prems"(1) True obtain t where ft: "f i s = Inr t"
      and rest: "for_loop f (i + 1) hi t = Inr s'"
      by (auto simp: for_loop_step split: sum.splits)
    have it: "Inv (i + 1) t"
      using "1.prems"(3)[of i s t] True "1.prems"(2) ft by simp
    have "Inv (max (i + 1) (hi + 1)) s'"
    proof (rule "1.IH"[OF True ft rest it])
      fix j t t'
      assume "i + 1 \<le> j" "j \<le> hi" "Inv j t" "f j t = Inr t'"
      then show "Inv (j + 1) t'" using "1.prems"(3)[of j t t'] by simp
    qed
    moreover have "max (i + 1) (hi + 1) = max i (hi + 1)" using True by simp
    ultimately show ?thesis by simp
  next
    case False
    then have "s' = s" using "1.prems"(1) by (simp add: for_loop_done)
    moreover have "max i (hi + 1) = i" using False by simp
    ultimately show ?thesis using "1.prems"(2) by simp
  qed
qed

lemma for_loop_total:
  assumes "Inv lo s"
    and "\<And>i t. lo \<le> i \<Longrightarrow> i \<le> hi \<Longrightarrow> Inv i t \<Longrightarrow> \<exists>t'. f i t = Inr t' \<and> Inv (i + 1) t'"
  shows "\<exists>s'. for_loop f lo hi s = Inr s'"
  using assms
proof (induction f lo hi s rule: for_loop.induct)
  case (1 f i hi s)
  show ?case
  proof (cases "i \<le> hi")
    case True
    from "1.prems"(2)[of i s] True "1.prems"(1) obtain t where ft: "f i s = Inr t" and it: "Inv (i + 1) t"
      by auto
    have "\<exists>s'. for_loop f (i + 1) hi t = Inr s'"
    proof (rule "1.IH"[OF True ft it])
      fix j t
      assume "i + 1 \<le> j" "j \<le> hi" "Inv j t"
      then show "\<exists>t'. f j t = Inr t' \<and> Inv (j + 1) t'" using "1.prems"(2)[of j t] by simp
    qed
    then show ?thesis using True ft by (simp add: for_loop_step)
  next
    case False
    then show ?thesis by (simp add: for_loop_done)
  qed
qed

lemma window_loop_Inr:
  assumes "window_loop f c k s = Inr s'"
  shows "for_loop f (c - k) (c + k) s = Inr s'"
  using assms by (auto simp: window_loop_def split: if_splits sum.splits)

lemma window_loop_fits:
  assumes "int32 (c - k)" "int32 (c + k)" "int32 (c + k + 1)"
  shows "window_loop f c k s = for_loop f (c - k) (c + k) s"
  using assms by (simp add: window_loop_def split: sum.splits)

section \<open>The running best of the neighbourhood search\<close>

lemma flt_trans: "flt a b \<Longrightarrow> flt b c \<Longrightarrow> flt a c"
  by (cases a; cases b; cases c) auto

lemma flt_irrefl: "\<not> flt a a"
  by (cases a) auto

lemma neighbour_cases:
  assumes "neighbour I n P x y b = Inr b'"
  shows "(b' = b \<and> (\<forall>Q. valid_neighbour I n x y Q \<longrightarrow> \<not> flt (dis3 P Q) (dmin b))) \<or>
         (\<exists>Q. valid_neighbour I n x y Q \<and> flt (dis3 P Q) (dmin b) \<and>
              b' = \<lparr>dmin = dis3 P Q, fx = x, fy = y\<rparr>)"
  using assms
  by (auto simp: neighbour_def valid_neighbour_def in_image_def pixel_index_def has_nan_def Let_def
           split: if_splits sum.splits prod.splits)

lemma best_of_step:
  assumes good: "best_of I n P S b"
    and run: "neighbour I n P x y b = Inr b'"
    and before: "\<And>x' y'. (x', y') \<in> S \<Longrightarrow> scan_le x' y' x y"
  shows "best_of I n P (insert (x, y) S) b'"
proof -
  from good have old: "\<And>x' y' Q'. (x', y') \<in> S \<Longrightarrow> valid_neighbour I n x' y' Q' \<Longrightarrow>
      \<not> flt (dis3 P Q') (dmin b) \<and> (dis3 P Q' = dmin b \<longrightarrow> scan_le (fx b) (fy b) x' y')"
    unfolding best_of_def by blast
  from good have sel: "unmatched b \<or>
      ((fx b, fy b) \<in> S \<and> flt (dmin b) (Fin 1000) \<and>
       (\<exists>Q. valid_neighbour I n (fx b) (fy b) Q \<and> dmin b = dis3 P Q))"
    unfolding best_of_def by blast
  from neighbour_cases[OF run] consider
    (keep) "b' = b" "\<forall>Q. valid_neighbour I n x y Q \<longrightarrow> \<not> flt (dis3 P Q) (dmin b)"
  | (take) Q where "valid_neighbour I n x y Q" "flt (dis3 P Q) (dmin b)"
      "b' = \<lparr>dmin = dis3 P Q, fx = x, fy = y\<rparr>"
    by blast
  then show ?thesis
  proof cases
    case keep
    have first: "scan_le (fx b) (fy b) x y" if "valid_neighbour I n x y Q" for Q
    proof (cases "unmatched b")
      case True
      moreover have "0 \<le> x" using that by (simp add: valid_neighbour_def in_image_def)
      ultimately show ?thesis by (simp add: unmatched_def scan_le_def)
    next
      case False
      then have "(fx b, fy b) \<in> S" using sel by blast
      then show ?thesis by (rule before)
    qed
    have "\<not> flt (dis3 P Q') (dmin b') \<and> (dis3 P Q' = dmin b' \<longrightarrow> scan_le (fx b') (fy b') x' y')"
      if "(x', y') \<in> insert (x, y) S" "valid_neighbour I n x' y' Q'" for x' y' Q'
    proof (cases "(x', y') = (x, y)")
      case True
      then have v: "valid_neighbour I n x y Q'" using that(2) by simp
      show ?thesis using keep(2)[rule_format, OF v] first[OF v] keep(1) True by simp
    next
      case False
      then have "(x', y') \<in> S" using that(1) by auto
      then show ?thesis using old[OF _ that(2)] keep(1) by simp
    qed
    moreover have "unmatched b' \<or>
      ((fx b', fy b') \<in> insert (x, y) S \<and> flt (dmin b') (Fin 1000) \<and>
       (\<exists>Q. valid_neighbour I n (fx b') (fy b') Q \<and> dmin b' = dis3 P Q))"
      using sel keep(1) by auto
    ultimately show ?thesis unfolding best_of_def by blast
  next
    case take
    have same: "Q' = Q" if "valid_neighbour I n x y Q'" for Q'
      using take(1) that by (simp add: valid_neighbour_def)
    have lt1000: "flt (dis3 P Q) (Fin 1000)"
    proof (cases "unmatched b")
      case True
      then show ?thesis using take(2) by (simp add: unmatched_def)
    next
      case False
      then have "flt (dmin b) (Fin 1000)" using sel by blast
      then show ?thesis using take(2) flt_trans by blast
    qed
    have "\<not> flt (dis3 P Q') (dmin b') \<and> (dis3 P Q' = dmin b' \<longrightarrow> scan_le (fx b') (fy b') x' y')"
      if "(x', y') \<in> insert (x, y) S" "valid_neighbour I n x' y' Q'" for x' y' Q'
    proof (cases "(x', y') = (x, y)")
      case True
      then have "Q' = Q" using that(2) same by simp
      then show ?thesis using True take(3) by (simp add: flt_irrefl scan_le_def)
    next
      case False
      then have "(x', y') \<in> S" using that(1) by auto
      then have nl: "\<not> flt (dis3 P Q') (dmin b)" using old that(2) by blast
      have "\<not> flt (dis3 P Q') (dis3 P Q)"
        using nl take(2) flt_trans by blast
      moreover have "dis3 P Q' \<noteq> dis3 P Q"
        using nl take(2) by auto
      ultimately show ?thesis using take(3) by simp
    qed
    moreover have "unmatched b' \<or>
      ((fx b', fy b') \<in> insert (x, y) S \<and> flt (dmin b') (Fin 1000) \<and>
       (\<exists>Q. valid_neighbour I n (fx b') (fy b') Q \<and> dmin b' = dis3 P Q))"
    proof -
      have "(fx b', fy b') \<in> insert (x, y) S" using take(3) by simp
      moreover have "flt (dmin b') (Fin 1000)" using take(3) lt1000 by simp
      moreover have "valid_neighbour I n (fx b') (fy b') Q \<and> dmin b' = dis3 P Q"
        using take(1,3) by simp
      ultimately show ?thesis by blast
    qed
    ultimately show ?thesis unfolding best_of_def by blast
  qed
qed

lemma column_scan:
  assumes run: "for_loop (\<lambda>y. neighbour I n P x y) lo hi b = Inr b'"
    and good: "best_of I n P S b"
    and before: "\<And>x' y'. (x', y') \<in> S \<Longrightarrow> x' < x"
  shows "best_of I n P (S \<union> {(x', y'). x' = x \<and> lo \<le> y' \<and> y' \<le> hi}) b'"
proof -
  let ?Inv = "\<lambda>y b. best_of I n P (S \<union> {(x', y'). x' = x \<and> lo \<le> y' \<and> y' < y}) b"
  have "?Inv (max lo (hi + 1)) b'"
  proof (rule for_loop_rule[OF run, where Inv = ?Inv])
    have "S \<union> {(x', y'). x' = x \<and> lo \<le> y' \<and> y' < lo} = S" by auto
    then show "?Inv lo b" using good by simp
  next
    fix y t t'
    assume y: "lo \<le> y" "y \<le> hi" and inv: "?Inv y t" and step: "neighbour I n P x y t = Inr t'"
    have "best_of I n P (insert (x, y) (S \<union> {(x', y'). x' = x \<and> lo \<le> y' \<and> y' < y})) t'"
      using inv step
    proof (rule best_of_step)
      fix x' y'
      assume "(x', y') \<in> S \<union> {(x', y'). x' = x \<and> lo \<le> y' \<and> y' < y}"
      then show "scan_le x' y' x y" using before by (auto simp: scan_le_def)
    qed
    moreover have "insert (x, y) (S \<union> {(x', y'). x' = x \<and> lo \<le> y' \<and> y' < y}) =
        S \<union> {(x', y'). x' = x \<and> lo \<le> y' \<and> y' < y + 1}"
      using y by auto
    ultimately show "?Inv (y + 1) t'" by simp
  qed
  moreover have "{(x', y'). x' = x \<and> lo \<le> y' \<and> y' < max lo (hi + 1)} =
      {(x', y'). x' = x \<and> lo \<le> y' \<and> y' \<le> hi}"
    by auto
  ultimately show ?thesis by simp
qed

lemma search_best_of:
  assumes run: "search I k n h w P = Inr b"
  shows "best_of I n P (window k h w) b"
proof -
  let ?col = "\<lambda>x. window_loop (\<lambda>y. neighbour I n P x y) h k"
  let ?S = "\<lambda>x. {(x', y'). w - k \<le> x' \<and> x' < x \<and> h - k \<le> y' \<and> y' \<le> h + k}"
  let ?Inv = "\<lambda>x b. best_of I n P (?S x) b"
  let ?b0 = "\<lparr>dmin = Fin 1000, fx = - 1, fy = - 1\<rparr>"
  from run have "window_loop ?col w k ?b0 = Inr b"
    by (simp add: search_def)
  then have loop: "for_loop ?col (w - k) (w + k) ?b0 = Inr b"
    by (rule window_loop_Inr)
  have "?Inv (max (w - k) (w + k + 1)) b"
  proof (rule for_loop_rule[OF loop, where Inv = ?Inv])
    show "?Inv (w - k) ?b0" by (auto simp: best_of_def unmatched_def)
  next
    fix x t t'
    assume x: "w - k \<le> x" "x \<le> w + k" and inv: "?Inv x t" and step: "?col x t = Inr t'"
    from step have col: "for_loop (\<lambda>y. neighbour I n P x y) (h - k) (h + k) t = Inr t'"
      by (rule window_loop_Inr)
    have "best_of I n P (?S x \<union> {(x', y'). x' = x \<and> h - k \<le> y' \<and> y' \<le> h + k}) t'"
      using col inv by (rule column_scan) auto
    moreover have "?S x \<union> {(x', y'). x' = x \<and> h - k \<le> y' \<and> y' \<le> h + k} = ?S (x + 1)"
      using x by auto
    ultimately show "?Inv (x + 1) t'" by simp
  qed
  moreover have "?S (max (w - k) (w + k + 1)) = window k h w"
    by (auto simp: window_def in_window_def)
  ultimately show ?thesis by simp
qed

section \<open>The search returns on well-shaped inputs\<close>

lemma pixel_index_bounds:
  assumes "0 \<le> n" "n < N" "0 \<le> y" "y < H" "0 \<le> x" "x < W"
  shows "0 \<le> n * H * W + y * W + x \<and> n * H * W + y * W + x < N * H * (W::int)"
proof -
  have "0 \<le> n * H * W" using assms by simp
  moreover have "0 \<le> y * W" using assms by simp
  ultimately have lo: "0 \<le> n * H * W + y * W + x" using assms by linarith
  have "y * W + x < H * W"
  proof -
    have "y * W + x < y * W + W" using assms by simp
    also have "\<dots> = (y + 1) * W" by (simp add: algebra_simps)
    also have "\<dots> \<le> H * W" using assms by (intro mult_right_mono) auto
    finally show ?thesis .
  qed
  then have "n * H * W + y * W + x < n * H * W + H * W" by linarith
  also have "\<dots> = (n + 1) * (H * W)" by (simp add: algebra_simps)
  also have "\<dots> \<le> N * (H * W)" using assms by (intro mult_right_mono) auto
  finally show ?thesis using lo by (simp add: mult.assoc)
qed

lemma prev_point_total:
  assumes ws: "well_shaped I" and n: "0 \<le> n" "n < batch_size I" and img: "in_image I x y"
  shows "\<exists>Q. prev_point I (pixel_index I n y x) = Inr Q"
proof -
  have b: "0 \<le> pixel_index I n y x \<and> pixel_index I n y x < batch_size I * height I * width I"
    unfolding pixel_index_def using n img
    by (intro pixel_index_bounds) (auto simp: in_image_def)
  have len: "int (length (im_points I)) = batch_size I * height I * width I * 3"
    using ws by (simp add: well_shaped_def)
  show ?thesis using b len by (simp add: prev_point_def rd_def)
qed

lemma neighbour_total:
  assumes "well_shaped I" "0 \<le> n" "n < batch_size I"
  shows "\<exists>b'. neighbour I n P x y b = Inr b'"
proof (cases "in_image I x y")
  case True
  from prev_point_total[OF assms True] obtain Q where "prev_point I (pixel_index I n y x) = Inr Q" ..
  then show ?thesis using True
    by (cases Q) (simp add: neighbour_def pixel_index_def in_image_def Let_def)
next
  case False
  then show ?thesis by (auto simp: neighbour_def in_image_def)
qed

lemma search_total:
  assumes "well_shaped I" "0 \<le> n" "n < batch_size I" and fits: "window_fits k h w"
  shows "\<exists>b. search I k n h w P = Inr b"
proof -
  have "window_loop (neighbour I n P x) h k t = for_loop (neighbour I n P x) (h - k) (h + k) t"
    for x t
    using fits by (intro window_loop_fits) (simp_all add: window_fits_def)
  then have col: "window_loop (neighbour I n P x) h k = for_loop (neighbour I n P x) (h - k) (h + k)"
    for x
    by (intro ext)
  have "\<exists>b. for_loop (\<lambda>x. for_loop (neighbour I n P x) (h - k) (h + k)) (w - k) (w + k)
          \<lparr>dmin = Fin 1000, fx = - 1, fy = - 1\<rparr> = Inr b"
  proof (rule for_loop_total[where Inv = "\<lambda>_ _. True"])
    fix x t
    have "\<exists>t'. for_loop (neighbour I n P x) (h - k) (h + k) t = Inr t'"
      by (rule for_loop_total[where Inv = "\<lambda>_ _. True"]) (use neighbour_total[OF assms(1-3)] in auto)
    then show "\<exists>t'. for_loop (neighbour I n P x) (h - k) (h + k) t = Inr t' \<and> True" by simp
  qed simp
  moreover have "search I k n h w P =
      for_loop (\<lambda>x. for_loop (neighbour I n P x) (h - k) (h + k)) (w - k) (w + k)
          \<lparr>dmin = Fin 1000, fx = - 1, fy = - 1\<rparr>"
    unfolding search_def using fits
    by (subst window_loop_fits) (simp_all add: window_fits_def col)
  ultimately show ?thesis by simp
qed

text \<open>
  The search of batch element \<open>n\<close> is determined by the extents and by the previous
  points of the pixels of batch element \<open>n\<close>.
\<close>

lemma search_reads_own_batch:
  assumes "height I' = height I" "width I' = width I"
    and "\<And>x y. in_image I x y \<Longrightarrow>
           prev_point I' (pixel_index I n y x) = prev_point I (pixel_index I n y x)"
  shows "search I' k n h w P = search I k n h w P"
proof -
  have "neighbour I' n P x y b = neighbour I n P x y b" for x y b
  proof (cases "in_image I x y")
    case True
    then show ?thesis
      using assms(3)[OF True] assms(1,2)
      by (simp add: neighbour_def pixel_index_def in_image_def)
  next
    case False
    then show ?thesis using assms(1,2) by (auto simp: neighbour_def in_image_def)
  qed
  then have "neighbour I' n P = neighbour I n P" by (intro ext)
  then show ?thesis by (simp add: search_def)
qed

section \<open>Evaluating the search on the example row\<close>

lemma sqrt_less_num: "0 \<le> b \<Longrightarrow> sqrt a < b \<longleftrightarrow> a < b\<^sup>2"
  by (metis real_sqrt_less_iff real_sqrt_abs abs_of_nonneg)

lemma sqrt_25: "sqrt 25 = 5"
proof -
  have "sqrt ((5::real)\<^sup>2) = 5" by simp
  then show ?thesis by simp
qed

lemmas search_run = search_def window_loop_def int32_def neighbour_def prev_point_def rd_def
  dis3_def for_loop_step for_loop_done

lemma row4_search:
  "search row4 2 0 0 1 (Fin 0, Fin 0, Fin 0) = Inr \<lparr>dmin = Fin (sqrt 25), fx = 2, fy = 0\<rparr>"
  by (simp add: search_run row4_def sqrt_less_num)

lemma row4_well_shaped: "well_shaped row4"
  by (simp add: well_shaped_def row4_def)

section \<open>Construction\<close>

text \<open>
  C8: a negative \<open>kernel_size\<close> or a negative \<open>threshold\<close> makes each of the
  three constructors (forward on CPU, forward on GPU, gradient) end with
  \<open>InvalidArgument\<close>; with both non-negative the checks pass and the attributes are
  stored. Construction precedes every call of \<open>Compute\<close>.
\<close>

theorem constructor_checks:
  "(kernel_size_attr < 0 \<or> flt threshold_attr (Fin 0) \<longrightarrow>
      rejected (ComputeFlowOp kernel_size_attr threshold_attr) \<and>
      rejected (ComputeFlowOp_Gpu kernel_size_attr threshold_attr) \<and>
      rejected (ComputeFlowGradOp kernel_size_attr threshold_attr)) \<and>
   (0 \<le> kernel_size_attr \<and> fge threshold_attr (Fin 0) \<longrightarrow>
      ComputeFlowOp kernel_size_attr threshold_attr =
        Inr \<lparr>kernel_size = kernel_size_attr, threshold = threshold_attr\<rparr> \<and>
      ComputeFlowOp_Gpu kernel_size_attr threshold_attr =
        Inr \<lparr>kernel_size = kernel_size_attr, threshold = threshold_attr\<rparr> \<and>
      ComputeFlowGradOp kernel_size_attr threshold_attr =
        Inr \<lparr>kernel_size = kernel_size_attr, threshold = threshold_attr\<rparr>)"
proof (cases threshold_attr)
  case NaN
  then show ?thesis
    by (simp add: ComputeFlowOp_def ComputeFlowOp_Gpu_def ComputeFlowGradOp_def rejected_def)
next
  case (Fin t)
  then show ?thesis
    by (auto simp: ComputeFlowOp_def ComputeFlowOp_Gpu_def ComputeFlowGradOp_def rejected_def)
qed

theorem constructor_checks_witness:
  "rejected (ComputeFlowOp (- 1) (Fin 1)) \<and> rejected (ComputeFlowGradOp 1 (Fin (- 1))) \<and>
   ComputeFlowOp 1 (Fin 0) = Inr \<lparr>kernel_size = 1, threshold = Fin 0\<rparr> \<and>
   ComputeFlowGradOp 0 (Fin 2) = Inr \<lparr>kernel_size = 0, threshold = Fin 2\<rparr>"
proof -
  have a: "(- 1 :: int) < 0 \<or> flt (Fin 1) (Fin 0)" by simp
  have b: "(1 :: int) < 0 \<or> flt (Fin (- 1)) (Fin 0)" by simp
  have c: "(0 :: int) \<le> 1 \<and> fge (Fin 0) (Fin 0)" by simp
  have d: "(0 :: int) \<le> 0 \<and> fge (Fin 2) (Fin 0)" by simp
  show ?thesis
    using constructor_checks[of "- 1" "Fin 1"] constructor_checks[of 1 "Fin (- 1)"]
      constructor_checks[of 1 "Fin 0"] constructor_checks[of 0 "Fin 2"] a b c d
    by blast
qed

section \<open>Properties of the neighbourhood search\<close>

text \<open>
  C10: a previous-frame point with not-a-number in any one of its three channels is
  skipped by the search step (the running best is returned unchanged), and no search
  over any window ever records its position as the best match.
\<close>

theorem partially_nan_point_never_matched:
  assumes "in_image I x y"
    and "prev_point I (pixel_index I n y x) = Inr (X_prev, Y_prev, Z_prev)"
    and "isnan X_prev \<or> isnan Y_prev \<or> isnan Z_prev"
  shows "neighbour I n P x y b = Inr b \<and>
         (\<forall>k h w b'. search I k n h w P = Inr b' \<longrightarrow> \<not> (fx b' = x \<and> fy b' = y))"
proof
  show "neighbour I n P x y b = Inr b"
    using assms by (simp add: neighbour_def pixel_index_def in_image_def)
next
  have inv: "\<not> valid_neighbour I n x y Q" for Q
    using assms(2,3) by (auto simp: valid_neighbour_def has_nan_def)
  show "\<forall>k h w b'. search I k n h w P = Inr b' \<longrightarrow> \<not> (fx b' = x \<and> fy b' = y)"
  proof (intro allI impI notI)
    fix k h w b'
    assume run: "search I k n h w P = Inr b'" and at: "fx b' = x \<and> fy b' = y"
    from search_best_of[OF run] have "unmatched b' \<or> (\<exists>Q. valid_neighbour I n (fx b') (fy b') Q)"
      unfolding best_of_def by blast
    moreover have "\<not> unmatched b'"
      using at assms(1) by (auto simp: unmatched_def in_image_def)
    ultimately show False using inv at by auto
  qed
qed

theorem partially_nan_point_never_matched_witness:
  "neighbour row4 0 (Fin 0, Fin 0, Fin 0) 1 0 \<lparr>dmin = Fin 1000, fx = - 1, fy = - 1\<rparr> =
     Inr \<lparr>dmin = Fin 1000, fx = - 1, fy = - 1\<rparr> \<and>
   search row4 2 0 0 1 (Fin 0, Fin 0, Fin 0) = Inr \<lparr>dmin = Fin (sqrt 25), fx = 2, fy = 0\<rparr> \<and>
   \<not> (fx \<lparr>dmin = Fin (sqrt 25), fx = 2, fy = 0\<rparr> = 1 \<and> fy \<lparr>dmin = Fin (sqrt 25), fx = 2, fy = 0\<rparr> = 0)"
proof -
  have h1: "in_image row4 1 0" by (simp add: in_image_def row4_def)
  have h2: "prev_point row4 (pixel_index row4 0 0 1) = Inr (NaN, Fin 0, Fin 0)"
    by (simp add: prev_point_def pixel_index_def rd_def row4_def)
  have h3: "isnan NaN \<or> isnan (Fin 0) \<or> isnan (Fin 0)" by simp
  have run: "search row4 2 0 0 1 (Fin 0, Fin 0, Fin 0) = Inr \<lparr>dmin = Fin (sqrt 25), fx = 2, fy = 0\<rparr>"
    by (rule row4_search)
  show ?thesis
    using partially_nan_point_never_matched[OF h1 h2 h3,
        of "(Fin 0, Fin 0, Fin 0)" "\<lparr>dmin = Fin 1000, fx = - 1, fy = - 1\<rparr>"] run
    by blast
qed

lemma flt_antisym_eq:
  assumes "flt a (Fin c)" "flt b (Fin c)" "\<not> flt a b" "\<not> flt b a"
  shows "a = b"
  using assms by (cases a; cases b) auto

lemma scan_le_antisym: "scan_le x y x' y' \<Longrightarrow> scan_le x' y' x y \<Longrightarrow> x = x' \<and> y = y'"
  by (auto simp: scan_le_def)

lemma row4_valid:
  assumes "valid_neighbour row4 0 x y Q"
  shows "(x = 0 \<and> y = 0 \<and> Q = (Fin 0, Fin 0, Fin 2000)) \<or>
         (x = 2 \<and> y = 0 \<and> Q = (Fin 3, Fin 4, Fin 0)) \<or>
         (x = 3 \<and> y = 0 \<and> Q = (Fin 0, Fin 5, Fin 0))"
proof -
  from assms have r: "0 \<le> x" "x < 4" "y = 0"
    by (simp_all add: valid_neighbour_def in_image_def row4_def)
  then consider "x = 0" | "x = 1" | "x = 2" | "x = 3" by linarith
  then show ?thesis
    using assms r(3)
    by cases (auto simp: valid_neighbour_def prev_point_def pixel_index_def rd_def has_nan_def row4_def)
qed

lemma row4_distances:
  "dis3 (Fin 0, Fin 0, Fin 0) (Fin 0, Fin 0, Fin 2000) = Fin 2000"
  "dis3 (Fin 0, Fin 0, Fin 0) (Fin 3, Fin 4, Fin 0) = Fin 5"
  "dis3 (Fin 0, Fin 0, Fin 0) (Fin 0, Fin 5, Fin 0) = Fin 5"
  using sqrt_25 by (simp_all add: dis3_def)

text \<open>
  C4, as amended: the window is scanned column by column (\<open>x\<close> ascending) and, inside
  a column, row by row (\<open>y\<close> ascending). On well-shaped inputs and a window inside the
  32-bit range, when a valid neighbour of the window achieves the minimum distance over
  the valid neighbours of the window, is the first in scan order to do so, and that
  distance is below the initial 1000, the search returns and records exactly this
  neighbour and its distance. The step replaces the running best exactly when the new
  distance is strictly smaller.
\<close>

theorem tie_break_below_cap:
  assumes ws: "well_shaped I" and n: "0 \<le> n" "n < batch_size I" and fits: "window_fits k h w"
    and win: "in_window k h w x y" and val: "valid_neighbour I n x y Q"
    and lt: "flt (dis3 P Q) (Fin 1000)"
    and least: "\<forall>x' y' Q'. in_window k h w x' y' \<and> valid_neighbour I n x' y' Q' \<longrightarrow>
                  \<not> flt (dis3 P Q') (dis3 P Q)"
    and first: "\<forall>x' y' Q'. in_window k h w x' y' \<and> valid_neighbour I n x' y' Q' \<and>
                  dis3 P Q' = dis3 P Q \<longrightarrow> scan_le x y x' y'"
  shows "\<exists>b. search I k n h w P = Inr b \<and> fx b = x \<and> fy b = y \<and> dmin b = dis3 P Q \<and>
     (\<forall>x' y' Q' b0. valid_neighbour I n x' y' Q' \<longrightarrow>
        neighbour I n P x' y' b0 =
          Inr (if flt (dis3 P Q') (dmin b0) then \<lparr>dmin = dis3 P Q', fx = x', fy = y'\<rparr> else b0))"
proof -
  from search_total[OF ws n fits] obtain b where run: "search I k n h w P = Inr b" ..
  note good = search_best_of[OF run]
  have mem: "(x, y) \<in> window k h w" using win by (simp add: window_def)
  have notless: "\<not> flt (dis3 P Q) (dmin b)"
    and tie: "dis3 P Q = dmin b \<longrightarrow> scan_le (fx b) (fy b) x y"
    using good mem val unfolding best_of_def by blast+
  have "\<not> unmatched b" using notless lt by (auto simp: unmatched_def)
  then obtain Qb where inw: "in_window k h w (fx b) (fy b)" and b1000: "flt (dmin b) (Fin 1000)"
    and vb: "valid_neighbour I n (fx b) (fy b) Qb" and db: "dmin b = dis3 P Qb"
    using good unfolding best_of_def window_def by auto
  have "\<not> flt (dmin b) (dis3 P Q)" using least inw vb db by metis
  then have eq: "dis3 P Q = dmin b" using flt_antisym_eq[OF lt b1000 notless] by simp
  have "scan_le x y (fx b) (fy b)" using first inw vb db eq by metis
  moreover have "scan_le (fx b) (fy b) x y" using tie eq by simp
  ultimately have at: "fx b = x \<and> fy b = y" using scan_le_antisym by blast
  have step: "neighbour I n P x' y' b0 =
        Inr (if flt (dis3 P Q') (dmin b0) then \<lparr>dmin = dis3 P Q', fx = x', fy = y'\<rparr> else b0)"
    if "valid_neighbour I n x' y' Q'" for x' y' Q' b0
    using that
    by (cases Q') (auto simp: valid_neighbour_def neighbour_def pixel_index_def in_image_def has_nan_def Let_def)
  show ?thesis using run at eq step by (intro exI[of _ b]) simp
qed

theorem tie_break_below_cap_witness:
  "well_shaped row4 \<and> window_fits 2 0 1 \<and> in_window 2 0 1 2 0 \<and>
   valid_neighbour row4 0 2 0 (Fin 3, Fin 4, Fin 0) \<and>
   valid_neighbour row4 0 3 0 (Fin 0, Fin 5, Fin 0) \<and>
   dis3 (Fin 0, Fin 0, Fin 0) (Fin 3, Fin 4, Fin 0) = Fin 5 \<and>
   dis3 (Fin 0, Fin 0, Fin 0) (Fin 0, Fin 5, Fin 0) = Fin 5 \<and>
   search row4 2 0 0 1 (Fin 0, Fin 0, Fin 0) = Inr \<lparr>dmin = Fin 5, fx = 2, fy = 0\<rparr>"
proof -
  let ?P = "(Fin 0, Fin 0, Fin 0)" and ?Q = "(Fin 3, Fin 4, Fin 0)"
  have ws: "well_shaped row4" by (rule row4_well_shaped)
  have n: "(0::int) \<le> 0" "0 < batch_size row4" by (simp_all add: row4_def)
  have fits: "window_fits 2 0 1" by (simp add: window_fits_def int32_def)
  have win: "in_window 2 0 1 2 0" by (simp add: in_window_def)
  have v: "valid_neighbour row4 0 2 0 ?Q"
    by (simp add: valid_neighbour_def in_image_def prev_point_def pixel_index_def rd_def has_nan_def row4_def)
  have v3: "valid_neighbour row4 0 3 0 (Fin 0, Fin 5, Fin 0)"
    by (simp add: valid_neighbour_def in_image_def prev_point_def pixel_index_def rd_def has_nan_def row4_def)
  have lt: "flt (dis3 ?P ?Q) (Fin 1000)" by (simp add: row4_distances)
  have least: "\<forall>x' y' Q'. in_window 2 0 1 x' y' \<and> valid_neighbour row4 0 x' y' Q' \<longrightarrow>
                  \<not> flt (dis3 ?P Q') (dis3 ?P ?Q)"
    using row4_valid by (fastforce simp: row4_distances)
  have first: "\<forall>x' y' Q'. in_window 2 0 1 x' y' \<and> valid_neighbour row4 0 x' y' Q' \<and>
                  dis3 ?P Q' = dis3 ?P ?Q \<longrightarrow> scan_le 2 0 x' y'"
    using row4_valid by (fastforce simp: row4_distances scan_le_def)
  from tie_break_below_cap[OF ws n fits win v lt least first]
  obtain b where "search row4 2 0 0 1 ?P = Inr b" "fx b = 2" "fy b = 0" "dmin b = dis3 ?P ?Q"
    by blast
  then have "search row4 2 0 0 1 ?P = Inr \<lparr>dmin = Fin 5, fx = 2, fy = 0\<rparr>"
    by (cases b) (simp add: row4_distances)
  then show ?thesis using ws fits win v v3 row4_distances by simp
qed

text \<open>
  C4, as stated, fails when the minimum distance is 1000 or more: in a row of three
  pixels whose previous points are all valid and all at distance 2000, the search
  around the middle pixel records none of them and ends with position \<open>(-1, -1)\<close>.
\<close>

theorem tie_at_2000_selects_none:
  "in_window 1 0 1 0 0 \<and> in_window 1 0 1 1 0 \<and> in_window 1 0 1 2 0 \<and>
   valid_neighbour tied_far 0 0 0 (Fin 0, Fin 0, Fin 2000) \<and>
   valid_neighbour tied_far 0 1 0 (Fin 0, Fin 2000, Fin 0) \<and>
   valid_neighbour tied_far 0 2 0 (Fin 2000, Fin 0, Fin 0) \<and>
   dis3 (Fin 0, Fin 0, Fin 0) (Fin 0, Fin 0, Fin 2000) = Fin 2000 \<and>
   dis3 (Fin 0, Fin 0, Fin 0) (Fin 0, Fin 2000, Fin 0) = Fin 2000 \<and>
   dis3 (Fin 0, Fin 0, Fin 0) (Fin 2000, Fin 0, Fin 0) = Fin 2000 \<and>
   search tied_far 1 0 0 1 (Fin 0, Fin 0, Fin 0) = Inr \<lparr>dmin = Fin 1000, fx = - 1, fy = - 1\<rparr>"
  by (simp add: in_window_def valid_neighbour_def in_image_def has_nan_def pixel_index_def
      search_run tied_far_def)

section \<open>What one pixel writes, and that later pixels leave it alone\<close>

lemma wr_Inr:
  assumes "wr xs i v = Inr ys"
  shows "length ys = length xs" and "rd ys i = Inr v" and "j \<noteq> i \<Longrightarrow> rd ys j = rd xs j"
  using assms by (auto simp: wr_def rd_def split: if_splits)

lemma write_loop:
  assumes body: "\<And>c td. f c td = (case g c of Inl e \<Rightarrow> Inl e | Inr v \<Rightarrow> wr td (base + c) v)"
    and run: "for_loop f 0 hi td0 = Inr td'"
  shows "length td' = length td0 \<and>
         (\<forall>c. 0 \<le> c \<and> c \<le> hi \<longrightarrow> (\<exists>v. g c = Inr v \<and> rd td' (base + c) = Inr v)) \<and>
         (\<forall>i. \<not> (base \<le> i \<and> i \<le> base + hi) \<longrightarrow> rd td' i = rd td0 i)"
proof -
  let ?Inv = "\<lambda>c td. length td = length td0 \<and>
         (\<forall>c'. 0 \<le> c' \<and> c' < c \<longrightarrow> (\<exists>v. g c' = Inr v \<and> rd td (base + c') = Inr v)) \<and>
         (\<forall>i. \<not> (base \<le> i \<and> i < base + c) \<longrightarrow> rd td i = rd td0 i)"
  have "?Inv (max 0 (hi + 1)) td'"
  proof (rule for_loop_rule[OF run, where Inv = ?Inv])
    show "?Inv 0 td0" by auto
  next
    fix c t t'
    assume c: "0 \<le> c" "c \<le> hi" and inv: "?Inv c t" and step: "f c t = Inr t'"
    from step body obtain v where gv: "g c = Inr v" and w: "wr t (base + c) v = Inr t'"
      by (auto split: sum.splits)
    note wr = wr_Inr[OF w]
    have "length t' = length td0" using wr(1) inv by simp
    moreover have "\<exists>v. g c' = Inr v \<and> rd t' (base + c') = Inr v" if "0 \<le> c'" "c' < c + 1" for c'
    proof (cases "c' = c")
      case True
      then show ?thesis using gv wr(2) by simp
    next
      case False
      then have "c' < c" "base + c' \<noteq> base + c" using that by auto
      then show ?thesis using inv that(1) wr(3) by simp
    qed
    moreover have "rd t' i = rd td0 i" if "\<not> (base \<le> i \<and> i < base + (c + 1))" for i
    proof -
      have "i \<noteq> base + c" using that c by auto
      moreover have "\<not> (base \<le> i \<and> i < base + c)" using that by auto
      ultimately show ?thesis using wr(3) inv by simp
    qed
    ultimately show "?Inv (c + 1) t'" by blast
  qed
  then show ?thesis by (auto simp: max_def split: if_splits)
qed

lemma point_at_write:
  assumes "wr tp (ip * 3 + 0) X = Inr tp0" "wr tp0 (ip * 3 + 1) Y = Inr tp1" "wr tp1 (ip * 3 + 2) Z = Inr tp2"
  shows "length tp2 = length tp \<and> point_at tp2 ip = Inr (X, Y, Z) \<and>
         (\<forall>i. \<not> (ip * 3 \<le> i \<and> i < ip * 3 + 3) \<longrightarrow> rd tp2 i = rd tp i)"
proof -
  note a = wr_Inr[OF assms(1)] and b = wr_Inr[OF assms(2)] and c = wr_Inr[OF assms(3)]
  have "rd tp2 (ip * 3 + 0) = Inr X" using a(2) b(3)[of "ip * 3 + 0"] c(3)[of "ip * 3 + 0"] by simp
  moreover have "rd tp2 (ip * 3 + 1) = Inr Y" using b(2) c(3)[of "ip * 3 + 1"] by simp
  moreover have "rd tp2 (ip * 3 + 2) = Inr Z" using c(2) by simp
  ultimately have "point_at tp2 ip = Inr (X, Y, Z)" by (simp add: point_at_def)
  moreover have "length tp2 = length tp" using a(1) b(1) c(1) by simp
  moreover have "rd tp2 i = rd tp i" if "\<not> (ip * 3 \<le> i \<and> i < ip * 3 + 3)" for i
  proof -
    have "i \<noteq> ip * 3 + 0" "i \<noteq> ip * 3 + 1" "i \<noteq> ip * 3 + 2" using that by auto
    then show ?thesis using a(3) b(3) c(3) by simp
  qed
  ultimately show ?thesis by blast
qed

lemma init_pixel_effect:
  assumes "init_pixel I ip T = Inr T1"
  shows "same_outside I ip T T1 \<and> zero_feature I (top_data T1) ip \<and>
         point_at (top_points T1) ip = Inr (NaN, NaN, NaN)"
proof -
  from assms obtain td tp0 tp1 tp2 where
    loop: "for_loop (\<lambda>c td. wr td (ip * num_channels I + c) (Fin 0)) 0 (num_channels I - 1) (top_data T) = Inr td"
    and w: "wr (top_points T) (ip * 3 + 0) NaN = Inr tp0" "wr tp0 (ip * 3 + 1) NaN = Inr tp1"
      "wr tp1 (ip * 3 + 2) NaN = Inr tp2"
    and T1: "T1 = \<lparr>top_data = td, top_points = tp2\<rparr>"
    by (auto simp: init_pixel_def split: sum.splits)
  have d: "length td = length (top_data T) \<and>
         (\<forall>c. 0 \<le> c \<and> c \<le> num_channels I - 1 \<longrightarrow>
            (\<exists>v. (Inr (Fin 0) :: error + fl) = Inr v \<and> rd td (ip * num_channels I + c) = Inr v)) \<and>
         (\<forall>i. \<not> (ip * num_channels I \<le> i \<and> i \<le> ip * num_channels I + (num_channels I - 1)) \<longrightarrow>
            rd td i = rd (top_data T) i)"
    by (rule write_loop[OF _ loop]) simp
  note p = point_at_write[OF w]
  have "zero_feature I td ip" using d by (auto simp: zero_feature_def)
  moreover have "same_outside I ip T T1" using d p T1 by (auto simp: same_outside_def)
  ultimately show ?thesis using p T1 by simp
qed

lemma store_point_effect:
  assumes "store_point ip P tp = Inr tp'"
  shows "length tp' = length tp \<and> point_at tp' ip = Inr P \<and>
         (\<forall>i. \<not> (ip * 3 \<le> i \<and> i < ip * 3 + 3) \<longrightarrow> rd tp' i = rd tp i)"
proof -
  obtain X Y Z where P: "P = (X, Y, Z)" by (cases P) auto
  from assms P obtain tp0 tp1 where
    w: "wr tp (ip * 3 + 0) X = Inr tp0" "wr tp0 (ip * 3 + 1) Y = Inr tp1" "wr tp1 (ip * 3 + 2) Z = Inr tp'"
    by (auto simp: store_point_def split: sum.splits)
  show ?thesis using point_at_write[OF w] P by simp
qed

lemma assign_data_effect:
  assumes "assign_data I ip index td = Inr td'"
  shows "length td' = length td \<and> copied_feature I td' ip index \<and>
         (\<forall>i. \<not> (ip * num_channels I \<le> i \<and> i < ip * num_channels I + num_channels I) \<longrightarrow>
            rd td' i = rd td i)"
proof -
  have d: "length td' = length td \<and>
         (\<forall>c. 0 \<le> c \<and> c \<le> num_channels I - 1 \<longrightarrow>
            (\<exists>v. rd (bottom_data_flat I) (index * num_channels I + c) = Inr v \<and>
                 rd td' (ip * num_channels I + c) = Inr v)) \<and>
         (\<forall>i. \<not> (ip * num_channels I \<le> i \<and> i \<le> ip * num_channels I + (num_channels I - 1)) \<longrightarrow>
            rd td' i = rd td i)"
    by (rule write_loop[OF _ assms[unfolded assign_data_def]]) simp
  then show ?thesis by (auto simp: copied_feature_def)
qed

lemma pixel_effect:
  assumes run: "pixel A I m n h w T = Inr T'"
  shows "same_outside I (pixel_index I n h w) T T' \<and> pixel_post A I m n h w T'"
proof -
  let ?ip = "pixel_index I n h w"
  from run obtain T1 depth where
    init: "init_pixel I ?ip T = Inr T1" and dep: "rd (im_depth I) ?ip = Inr depth"
    by (auto simp: pixel_def pixel_index_def Let_def split: sum.splits)
  note i = init_pixel_effect[OF init]
  show ?thesis
  proof (cases "fgt depth (Fin 0)")
    case False
    then have "T' = T1" using run init dep
      by (simp add: pixel_def pixel_index_def Let_def)
    then show ?thesis using i dep False by (auto simp: pixel_post_def)
  next
    case True
    from run init dep True obtain P tp b where
      bp: "backproject I m w h depth = Inr P"
      and sp: "store_point ?ip P (top_points T1) = Inr tp"
      and se: "search I (kernel_size A) n h w P = Inr b"
      by (auto simp: pixel_def pixel_index_def Let_def split: sum.splits)
    note s = store_point_effect[OF sp]
    show ?thesis
    proof (cases "flt (dmin b) (threshold A)")
      case False
      then have T': "T' = \<lparr>top_data = top_data T1, top_points = tp\<rparr>"
        using run init dep True bp sp se by (simp add: pixel_def pixel_index_def Let_def)
      have "same_outside I ?ip T T'" using i s T' by (auto simp: same_outside_def)
      moreover have "pixel_post A I m n h w T'"
        unfolding pixel_post_def using dep True bp se False s i T' by auto
      ultimately show ?thesis by simp
    next
      case flt: True
      from run init dep True bp sp se flt obtain td where
        ad: "assign_data I ?ip (pixel_index I n (fy b) (fx b)) (top_data T1) = Inr td"
        and T': "T' = \<lparr>top_data = td, top_points = tp\<rparr>"
        by (auto simp: pixel_def pixel_index_def Let_def split: sum.splits)
      note a = assign_data_effect[OF ad]
      have "same_outside I ?ip T T'" using i s a T' by (auto simp: same_outside_def)
      moreover have "pixel_post A I m n h w T'"
        unfolding pixel_post_def using dep True bp se flt s a T' by auto
      ultimately show ?thesis by simp
    qed
  qed
qed

lemma quotient_unique:
  fixes a a' r r' W :: int
  assumes "0 \<le> r" "r < W" "0 \<le> r'" "r' < W" "a * W + r = a' * W + r'"
  shows "a = a' \<and> r = r'"
proof -
  have less: "False" if "b < b'" "b * W + s = b' * W + s'" "s < W" "0 \<le> s'" for b b' s s' :: int
  proof -
    have "b * W + s < b * W + W" using that by simp
    also have "\<dots> = (b + 1) * W" by (simp add: algebra_simps)
    also have "\<dots> \<le> b' * W" using that assms by (intro mult_right_mono) auto
    also have "\<dots> \<le> b' * W + s'" using that by simp
    finally show False using that by simp
  qed
  have "a = a'"
  proof (rule ccontr)
    assume "a \<noteq> a'"
    then consider "a < a'" | "a' < a" by linarith
    then show False
    proof cases
      case 1
      then show False using less[of a a' r r'] assms by simp
    next
      case 2
      then show False using less[of a' a r' r] assms by simp
    qed
  qed
  then show ?thesis using assms by simp
qed

lemma pixel_index_inj:
  assumes "valid_pixel I n h w" "valid_pixel I n' h' w'"
    and "pixel_index I n h w = pixel_index I n' h' w'"
  shows "n = n' \<and> h = h' \<and> w = w'"
proof -
  have "(n * height I + h) * width I + w = (n' * height I + h') * width I + w'"
    using assms(3) by (simp add: pixel_index_def algebra_simps)
  then have a: "n * height I + h = n' * height I + h' \<and> w = w'"
    using assms(1,2) by (intro quotient_unique) (auto simp: valid_pixel_def)
  then have "n = n' \<and> h = h'"
    using assms(1,2) by (intro quotient_unique) (auto simp: valid_pixel_def)
  then show ?thesis using a by simp
qed

lemma slot_disjoint:
  fixes ip ip' c C :: int
  assumes "ip' \<noteq> ip" "0 \<le> c" "c < C"
  shows "\<not> (ip * C \<le> ip' * C + c \<and> ip' * C + c < ip * C + C)"
proof
  assume in_slot: "ip * C \<le> ip' * C + c \<and> ip' * C + c < ip * C + C"
  have "ip * C + (ip' * C + c - ip * C) = ip' * C + c" by simp
  then have "ip = ip' \<and> ip' * C + c - ip * C = c"
    using in_slot assms by (intro quotient_unique) auto
  then show False using assms by simp
qed

lemma pixel_post_frame:
  assumes so: "same_outside I ip T T'" and ne: "pixel_index I n h w \<noteq> ip"
    and post: "pixel_post A I m n h w T"
  shows "pixel_post A I m n h w T'"
proof -
  let ?q = "pixel_index I n h w"
  have data: "rd (top_data T') (?q * num_channels I + c) = rd (top_data T) (?q * num_channels I + c)"
    if "0 \<le> c" "c < num_channels I" for c
    using so slot_disjoint[OF ne that] by (simp add: same_outside_def)
  have pts: "rd (top_points T') (?q * 3 + j) = rd (top_points T) (?q * 3 + j)"
    if "0 \<le> j" "j < 3" for j
    using so slot_disjoint[OF ne that] by (simp add: same_outside_def)
  have p: "point_at (top_points T') ?q = point_at (top_points T) ?q"
    using pts[of 0] pts[of 1] pts[of 2] by (simp add: point_at_def cong: sum.case_cong)
  have z: "zero_feature I (top_data T') ?q = zero_feature I (top_data T) ?q"
    using data by (simp add: zero_feature_def)
  have c: "copied_feature I (top_data T') ?q index = copied_feature I (top_data T) ?q index" for index
    using data by (simp add: copied_feature_def)
  show ?thesis using post unfolding pixel_post_def p z c .
qed

lemma pixel_step:
  assumes cur: "valid_pixel I n h w"
    and run: "pixel A I (n * num_meta_data I) n h w T = Inr T'"
    and before: "done_upto A I (pixel_index I n h w) T"
  shows "done_upto A I (pixel_index I n h w + 1) T'"
  unfolding done_upto_def
proof (intro allI impI)
  fix n' h' w'
  assume q: "valid_pixel I n' h' w' \<and> pixel_index I n' h' w' < pixel_index I n h w + 1"
  note e = pixel_effect[OF run]
  show "pixel_post A I (n' * num_meta_data I) n' h' w' T'"
  proof (cases "pixel_index I n' h' w' = pixel_index I n h w")
    case True
    then have "n' = n \<and> h' = h \<and> w' = w" using pixel_index_inj q cur by blast
    then show ?thesis using e by simp
  next
    case False
    then have "pixel_index I n' h' w' < pixel_index I n h w" using q by simp
    then have "pixel_post A I (n' * num_meta_data I) n' h' w' T"
      using before q unfolding done_upto_def by blast
    then show ?thesis using e False pixel_post_frame by blast
  qed
qed

lemma row_loop:
  assumes nh: "0 \<le> n" "n < batch_size I" "0 \<le> h" "h < height I" and W: "0 \<le> width I"
    and run: "for_loop (\<lambda>w. pixel A I (n * num_meta_data I) n h w) 0 (width I - 1) T = Inr T'"
    and before: "done_upto A I (pixel_index I n h 0) T"
  shows "done_upto A I (pixel_index I n (h + 1) 0) T'"
proof -
  let ?Inv = "\<lambda>w T. done_upto A I (pixel_index I n h w) T"
  have "?Inv (max 0 (width I - 1 + 1)) T'"
  proof (rule for_loop_rule[OF run, where Inv = ?Inv])
    show "?Inv 0 T" by (rule before)
  next
    fix w t t'
    assume w: "0 \<le> w" "w \<le> width I - 1" and inv: "?Inv w t"
      and step: "pixel A I (n * num_meta_data I) n h w t = Inr t'"
    have "valid_pixel I n h w" using nh w by (simp add: valid_pixel_def)
    from pixel_step[OF this step inv]
    show "?Inv (w + 1) t'" by (simp add: pixel_index_def add.assoc)
  qed
  moreover have "pixel_index I n h (max 0 (width I - 1 + 1)) = pixel_index I n (h + 1) 0"
    using W by (simp add: pixel_index_def algebra_simps)
  ultimately show ?thesis by simp
qed

lemma batch_loop:
  assumes n: "0 \<le> n" "n < batch_size I" and H: "0 \<le> height I" and W: "0 \<le> width I"
    and run: "for_loop (\<lambda>h. for_loop (\<lambda>w. pixel A I (n * num_meta_data I) n h w) 0 (width I - 1))
                0 (height I - 1) T = Inr T'"
    and before: "done_upto A I (pixel_index I n 0 0) T"
  shows "done_upto A I (pixel_index I (n + 1) 0 0) T'"
proof -
  let ?Inv = "\<lambda>h T. done_upto A I (pixel_index I n h 0) T"
  have "?Inv (max 0 (height I - 1 + 1)) T'"
  proof (rule for_loop_rule[OF run, where Inv = ?Inv])
    show "?Inv 0 T" by (rule before)
  next
    fix h t t'
    assume h: "0 \<le> h" "h \<le> height I - 1" and inv: "?Inv h t"
      and step: "for_loop (\<lambda>w. pixel A I (n * num_meta_data I) n h w) 0 (width I - 1) t = Inr t'"
    have "h < height I" using h by simp
    from row_loop[OF n h(1) this W step inv] show "?Inv (h + 1) t'" .
  qed
  moreover have "pixel_index I n (max 0 (height I - 1 + 1)) 0 = pixel_index I (n + 1) 0 0"
    using H by (simp add: pixel_index_def algebra_simps)
  ultimately show ?thesis by simp
qed

lemma valid_pixel_index:
  assumes "valid_pixel I n h w"
  shows "0 \<le> pixel_index I n h w \<and> pixel_index I n h w < batch_size I * height I * width I"
  unfolding pixel_index_def using assms
  by (intro pixel_index_bounds) (auto simp: valid_pixel_def)

lemma forward_post:
  assumes run: "forward A I T = Inr T'" and px: "valid_pixel I n h w"
  shows "pixel_post A I (n * num_meta_data I) n h w T'"
proof -
  have N: "0 \<le> batch_size I" and H: "0 \<le> height I" and W: "0 \<le> width I"
    using px by (auto simp: valid_pixel_def)
  from run obtain m' where loop: "for_loop (batch_element A I) 0 (batch_size I - 1) (T, 0) = Inr (T', m')"
    by (auto simp: forward_def split: sum.splits)
  let ?Inv = "\<lambda>n S. snd S = n * num_meta_data I \<and> done_upto A I (pixel_index I n 0 0) (fst S)"
  have "?Inv (max 0 (batch_size I - 1 + 1)) (T', m')"
  proof (rule for_loop_rule[OF loop, where Inv = ?Inv])
    have "done_upto A I (pixel_index I 0 0 0) T"
      unfolding done_upto_def
    proof (intro allI impI)
      fix n h w
      assume q: "valid_pixel I n h w \<and> pixel_index I n h w < pixel_index I 0 0 0"
      then have "0 \<le> pixel_index I n h w" using valid_pixel_index by blast
      then show "pixel_post A I (n * num_meta_data I) n h w T"
        using q by (simp add: pixel_index_def)
    qed
    then show "?Inv 0 (T, 0)" by simp
  next
    fix k S S'
    assume k: "0 \<le> k" "k \<le> batch_size I - 1" and inv: "?Inv k S"
      and step: "batch_element A I k S = Inr S'"
    obtain t m where S: "S = (t, m)" by (cases S) auto
    from step S obtain t' where
      rows: "for_loop (\<lambda>h. for_loop (\<lambda>w. pixel A I m k h w) 0 (width I - 1)) 0 (height I - 1) t = Inr t'"
      and S': "S' = (t', m + num_meta_data I)"
      by (auto simp: batch_element_def split: sum.splits)
    have m: "m = k * num_meta_data I" using inv S by simp
    have "k < batch_size I" using k by simp
    from batch_loop[OF k(1) this H W rows[unfolded m]] inv S
    have "done_upto A I (pixel_index I (k + 1) 0 0) t'" by simp
    then show "?Inv (k + 1) S'" using S' m by (simp add: algebra_simps)
  qed
  then have "done_upto A I (pixel_index I (batch_size I) 0 0) T'" using N by simp
  moreover have "pixel_index I n h w < pixel_index I (batch_size I) 0 0"
    using valid_pixel_index[OF px] by (simp add: pixel_index_def)
  ultimately show ?thesis using px unfolding done_upto_def by blast
qed

section \<open>The forward pass as a whole\<close>

lemma Compute_forward:
  assumes "Compute A bottom_data bottom_points bottom_depth bottom_meta_data u = Inr T'"
    and "I = flat_views bottom_data bottom_points bottom_depth bottom_meta_data"
  shows "forward A I (allocate_outputs I u) = Inr T'"
  using assms by (simp add: Compute_def Let_def split: if_splits)

lemma lift2_isl: "isl (lift2 f a b) \<longleftrightarrow> isl a \<or> isl b"
  by (cases a; cases b) (simp_all add: lift2_def)

lemma lift2_Inr: "lift2 f (Inr x) (Inr y) = Inr (f x y)"
  by (simp add: lift2_def)

lemma rd_isl: "isl (rd xs i) \<longleftrightarrow> \<not> (0 \<le> i \<and> i < int (length xs))"
  by (simp add: rd_def)

lemma fmul_one: "fmul x (Fin 1) = x"
  by (cases x) simp_all

lemma backproject_reads:
  assumes "backproject I m w h depth = Inr P"
  shows "0 \<le> m + 9 \<and> m + 41 < int (length (meta_data I))"
proof -
  let ?RX = "ray I m 9 w h"
  let ?X = "emul (Inr depth) ?RX" and ?Y = "emul (Inr depth) (ray I m 12 w h)"
    and ?Z = "emul (Inr depth) (ray I m 15 w h)"
  from assms have a: "\<not> isl (pose_row I m 30 ?X ?Y ?Z)" and c: "\<not> isl (pose_row I m 38 ?X ?Y ?Z)"
    by (auto simp: backproject_def Let_def split: sum.splits)
  from a have "\<not> isl (md I m 9)"
    by (simp add: pose_row_def ray_def eadd_def emul_def lift2_isl)
  moreover from c have "\<not> isl (md I m (38 + 3))"
    by (simp add: pose_row_def eadd_def emul_def lift2_isl)
  ultimately show ?thesis by (simp add: md_def rd_isl)
qed

lemma meta_record_nth:
  assumes "0 \<le> m" "m = n * num_meta_data I" "42 \<le> num_meta_data I"
    "m + 41 < int (length (meta_data I))" "k \<le> 41"
  shows "rd (meta_data I) (m + int k) = Inr (meta_record I n ! k)"
proof -
  have "nat m + k < length (meta_data I)" using assms by linarith
  moreover have "k < nat (num_meta_data I)" using assms by linarith
  ultimately have "meta_record I n ! k = meta_data I ! (nat m + k)"
    using assms(2) by (simp add: meta_record_def)
  moreover have "nat (m + int k) = nat m + k" using assms(1) by (simp add: nat_add_distrib)
  moreover have "0 \<le> m + int k \<and> m + int k < int (length (meta_data I))" using assms by linarith
  ultimately show ?thesis by (simp add: rd_def)
qed

lemma backproject_spec:
  assumes m: "0 \<le> m" "m = n * num_meta_data I" and M: "42 \<le> num_meta_data I"
    and len: "m + 41 < int (length (meta_data I))"
  shows "backproject I m w h depth = Inr (reproject_spec (meta_record I n) w h depth)"
proof -
  have r: "md I m (int k) = Inr (meta_record I n ! k)" if "k \<le> 41" for k
    unfolding md_def using meta_record_nth[OF m M len that] .
  have r9: "md I m 9 = Inr (meta_record I n ! 9)" using r[of 9] by simp
  have r10: "md I m 10 = Inr (meta_record I n ! 10)" using r[of 10] by simp
  have r11: "md I m 11 = Inr (meta_record I n ! 11)" using r[of 11] by simp
  have r12: "md I m 12 = Inr (meta_record I n ! 12)" using r[of 12] by simp
  have r13: "md I m 13 = Inr (meta_record I n ! 13)" using r[of 13] by simp
  have r14: "md I m 14 = Inr (meta_record I n ! 14)" using r[of 14] by simp
  have r15: "md I m 15 = Inr (meta_record I n ! 15)" using r[of 15] by simp
  have r16: "md I m 16 = Inr (meta_record I n ! 16)" using r[of 16] by simp
  have r17: "md I m 17 = Inr (meta_record I n ! 17)" using r[of 17] by simp
  have r30: "md I m 30 = Inr (meta_record I n ! 30)" using r[of 30] by simp
  have r31: "md I m 31 = Inr (meta_record I n ! 31)" using r[of 31] by simp
  have r32: "md I m 32 = Inr (meta_record I n ! 32)" using r[of 32] by simp
  have r33: "md I m 33 = Inr (meta_record I n ! 33)" using r[of 33] by simp
  have r34: "md I m 34 = Inr (meta_record I n ! 34)" using r[of 34] by simp
  have r35: "md I m 35 = Inr (meta_record I n ! 35)" using r[of 35] by simp
  have r36: "md I m 36 = Inr (meta_record I n ! 36)" using r[of 36] by simp
  have r37: "md I m 37 = Inr (meta_record I n ! 37)" using r[of 37] by simp
  have r38: "md I m 38 = Inr (meta_record I n ! 38)" using r[of 38] by simp
  have r39: "md I m 39 = Inr (meta_record I n ! 39)" using r[of 39] by simp
  have r40: "md I m 40 = Inr (meta_record I n ! 40)" using r[of 40] by simp
  have r41: "md I m 41 = Inr (meta_record I n ! 41)" using r[of 41] by simp
  show ?thesis
    by (simp add: backproject_def ray_def pose_row_def eadd_def emul_def lift2_Inr
        r9 r10 r11 r12 r13 r14 r15 r16 r17 r30 r31 r32 r33 r34 r35 r36 r37 r38 r39 r40 r41
        reproject_spec_def affine_def scale_def mat_vec_def dot3_def inverse_intrinsics_def
        pose_live2world_def fmul_one)
qed

lemma gate_under_cap:
  assumes run: "search I k n h w P = Inr b" and cap: "fle (threshold A) (Fin 1000)"
    and gate: "flt (dmin b) (threshold A)"
  shows "in_window k h w (fx b) (fy b) \<and> in_image I (fx b) (fy b)"
proof -
  have "\<not> unmatched b"
  proof
    assume "unmatched b"
    then have "dmin b = Fin 1000" by (simp add: unmatched_def)
    then show False using cap gate by (cases "threshold A") auto
  qed
  then show ?thesis
    using search_best_of[OF run] unfolding best_of_def window_def valid_neighbour_def by auto
qed

section \<open>The forward pass returns under the cap\<close>

text \<open>
  On well-shaped inputs, with a non-negative \<open>kernel_size\<close> whose windows stay inside
  the 32-bit range and with a threshold of at most 1000, every access of the forward
  pass is inside its buffer and \<open>Compute\<close> returns its two outputs.
\<close>

lemma wr_total:
  assumes "0 \<le> i" "i < int (length xs)"
  shows "\<exists>ys. wr xs i v = Inr ys"
  using assms by (simp add: wr_def)

lemma slot_bounds:
  fixes ip c C K :: int
  assumes "0 \<le> ip" "ip < K" "0 \<le> c" "c < C"
  shows "0 \<le> ip * C + c \<and> ip * C + c < K * C"
proof -
  have "0 \<le> ip * C" using assms by simp
  then have lo: "0 \<le> ip * C + c" using assms by simp
  have "ip * C + c < ip * C + C" using assms by simp
  also have "\<dots> = (ip + 1) * C" by (simp add: algebra_simps)
  also have "\<dots> \<le> K * C" using assms by (intro mult_right_mono) auto
  finally show ?thesis using lo by simp
qed

lemma write_loop_total:
  assumes body: "\<And>c td. f c td = (case g c of Inl e \<Rightarrow> Inl e | Inr v \<Rightarrow> wr td (base + c) v)"
    and src: "\<And>c. 0 \<le> c \<Longrightarrow> c \<le> hi \<Longrightarrow> \<exists>v. g c = Inr v"
    and dst: "\<And>c. 0 \<le> c \<Longrightarrow> c \<le> hi \<Longrightarrow> 0 \<le> base + c \<and> base + c < int (length td0)"
  shows "\<exists>td'. for_loop f 0 hi td0 = Inr td'"
proof (rule for_loop_total[where Inv = "\<lambda>c td. length td = length td0"])
  show "length td0 = length td0" by simp
next
  fix c and t :: "fl list"
  assume c: "0 \<le> c" "c \<le> hi" and len: "length t = length td0"
  from src[OF c] obtain v where v: "g c = Inr v" ..
  from dst[OF c] len have "0 \<le> base + c" "base + c < int (length t)" by simp_all
  from wr_total[OF this] obtain t' where w: "wr t (base + c) v = Inr t'" ..
  have "length t' = length t" using wr_Inr(1)[OF w] .
  then show "\<exists>t'. f c t = Inr t' \<and> length t' = length td0"
    using body v w len by simp
qed

lemma init_pixel_total:
  assumes al: "allocated I T" and ip: "0 \<le> ip" "ip < batch_size I * height I * width I"
  shows "\<exists>T1. init_pixel I ip T = Inr T1"
proof -
  let ?K = "batch_size I * height I * width I"
  have "\<exists>td. for_loop (\<lambda>c td. wr td (ip * num_channels I + c) (Fin 0)) 0 (num_channels I - 1)
            (top_data T) = Inr td"
  proof (rule write_loop_total[where g = "\<lambda>c. Inr (Fin 0)"])
    fix c assume "0 \<le> c" "c \<le> num_channels I - 1"
    then have "0 \<le> ip * num_channels I + c \<and> ip * num_channels I + c < ?K * num_channels I"
      using ip by (intro slot_bounds) auto
    then show "0 \<le> ip * num_channels I + c \<and> ip * num_channels I + c < int (length (top_data T))"
      using al by (simp add: allocated_def)
  qed simp_all
  then obtain td where td: "for_loop (\<lambda>c td. wr td (ip * num_channels I + c) (Fin 0)) 0
      (num_channels I - 1) (top_data T) = Inr td" ..
  have len: "int (length (top_points T)) = ?K * 3" using al by (simp add: allocated_def)
  have b: "0 \<le> ip * 3 + j \<and> ip * 3 + j < ?K * 3" if "0 \<le> j" "j < 3" for j
    using ip that by (intro slot_bounds) auto
  from wr_total[of "ip * 3 + 0" "top_points T" NaN] b[of 0] len
  obtain tp0 where w0: "wr (top_points T) (ip * 3 + 0) NaN = Inr tp0" by auto
  from wr_total[of "ip * 3 + 1" tp0 NaN] b[of 1] len wr_Inr(1)[OF w0]
  obtain tp1 where w1: "wr tp0 (ip * 3 + 1) NaN = Inr tp1" by auto
  from wr_total[of "ip * 3 + 2" tp1 NaN] b[of 2] len wr_Inr(1)[OF w0] wr_Inr(1)[OF w1]
  obtain tp2 where w2: "wr tp1 (ip * 3 + 2) NaN = Inr tp2" by auto
  show ?thesis using td w0 w1 w2 by (simp add: init_pixel_def)
qed

lemma store_point_total:
  assumes len: "int (length tp) = K * 3" and ip: "0 \<le> ip" "ip < K"
  shows "\<exists>tp'. store_point ip P tp = Inr tp'"
proof -
  obtain X Y Z where P: "P = (X, Y, Z)" by (cases P) auto
  have b: "0 \<le> ip * 3 + j \<and> ip * 3 + j < K * 3" if "0 \<le> j" "j < 3" for j
    using ip that by (intro slot_bounds) auto
  from wr_total[of "ip * 3 + 0" tp X] b[of 0] len
  obtain tp0 where w0: "wr tp (ip * 3 + 0) X = Inr tp0" by auto
  from wr_total[of "ip * 3 + 1" tp0 Y] b[of 1] len wr_Inr(1)[OF w0]
  obtain tp1 where w1: "wr tp0 (ip * 3 + 1) Y = Inr tp1" by auto
  from wr_total[of "ip * 3 + 2" tp1 Z] b[of 2] len wr_Inr(1)[OF w0] wr_Inr(1)[OF w1]
  obtain tp2 where w2: "wr tp1 (ip * 3 + 2) Z = Inr tp2" by auto
  show ?thesis using P w0 w1 w2 by (simp add: store_point_def)
qed

lemma assign_data_total:
  assumes ws: "well_shaped I"
    and len: "int (length td) = batch_size I * height I * width I * num_channels I"
    and ip: "0 \<le> ip" "ip < batch_size I * height I * width I"
    and ix: "0 \<le> index" "index < batch_size I * height I * width I"
  shows "\<exists>td'. assign_data I ip index td = Inr td'"
  unfolding assign_data_def
proof (rule write_loop_total[where g = "\<lambda>c. rd (bottom_data_flat I) (index * num_channels I + c)"
      and base = "ip * num_channels I"])
  fix c assume c: "0 \<le> c" "c \<le> num_channels I - 1"
  have "0 \<le> index * num_channels I + c \<and>
        index * num_channels I + c < batch_size I * height I * width I * num_channels I"
    using ix c by (intro slot_bounds) auto
  then show "\<exists>v. rd (bottom_data_flat I) (index * num_channels I + c) = Inr v"
    using ws by (simp add: well_shaped_def rd_def)
  have "0 \<le> ip * num_channels I + c \<and>
        ip * num_channels I + c < batch_size I * height I * width I * num_channels I"
    using ip c by (intro slot_bounds) auto
  then show "0 \<le> ip * num_channels I + c \<and> ip * num_channels I + c < int (length td)"
    using len by simp
qed simp

lemma backproject_total:
  assumes ws: "well_shaped I" and n: "0 \<le> n" "n < batch_size I"
  shows "\<exists>P. backproject I (n * num_meta_data I) w h depth = Inr P"
proof -
  have M: "42 \<le> num_meta_data I" using ws by (simp add: well_shaped_def)
  have m0: "0 \<le> n * num_meta_data I" using n M by simp
  have "n * num_meta_data I + 41 < n * num_meta_data I + num_meta_data I" using M by simp
  also have "\<dots> = (n + 1) * num_meta_data I" by (simp add: algebra_simps)
  also have "\<dots> \<le> batch_size I * num_meta_data I" using n M by (intro mult_right_mono) auto
  finally have "n * num_meta_data I + 41 < int (length (meta_data I))"
    using ws by (simp add: well_shaped_def)
  from backproject_spec[OF m0 refl M this] show ?thesis by blast
qed

lemma pixel_total:
  assumes ws: "well_shaped I" and kf: "kernel_fits A I" and cap: "fle (threshold A) (Fin 1000)"
    and al: "allocated I T" and px: "valid_pixel I n h w"
  shows "\<exists>T'. pixel A I (n * num_meta_data I) n h w T = Inr T' \<and> allocated I T'"
proof -
  let ?ip = "pixel_index I n h w" and ?K = "batch_size I * height I * width I"
  have n: "0 \<le> n" "n < batch_size I" using px by (simp_all add: valid_pixel_def)
  have ip: "0 \<le> ?ip" "?ip < ?K" using valid_pixel_index[OF px] by simp_all
  from init_pixel_total[OF al ip] obtain T1 where init: "init_pixel I ?ip T = Inr T1" ..
  have so: "same_outside I ?ip T T1" using init_pixel_effect[OF init] by simp
  have al1: "allocated I T1" using so al by (simp add: same_outside_def allocated_def)
  have "int (length (im_depth I)) = ?K" using ws by (simp add: well_shaped_def)
  then obtain depth where dep: "rd (im_depth I) ?ip = Inr depth" using ip by (simp add: rd_def)
  have "\<exists>T'. pixel A I (n * num_meta_data I) n h w T = Inr T'"
  proof (cases "fgt depth (Fin 0)")
    case False
    then show ?thesis using init dep by (simp add: pixel_def pixel_index_def Let_def)
  next
    case True
    from backproject_total[OF ws n] obtain P where
      bp: "backproject I (n * num_meta_data I) w h depth = Inr P" ..
    have "int (length (top_points T1)) = ?K * 3" using al1 by (simp add: allocated_def)
    from store_point_total[OF this ip] obtain tp where sp: "store_point ?ip P (top_points T1) = Inr tp" ..
    have "window_fits (kernel_size A) h w"
      using kf px by (simp add: kernel_fits_def valid_pixel_def window_fits_def int32_def)
    from search_total[OF ws n this] obtain b where se: "search I (kernel_size A) n h w P = Inr b" ..
    show ?thesis
    proof (cases "flt (dmin b) (threshold A)")
      case False
      then show ?thesis using init dep True bp sp se
        by (simp add: pixel_def pixel_index_def Let_def)
    next
      case gate: True
      have "in_image I (fx b) (fy b)" using gate_under_cap[OF se cap gate] by simp
      then have "valid_pixel I n (fy b) (fx b)" using n by (simp add: in_image_def valid_pixel_def)
      from valid_pixel_index[OF this]
      have ix: "0 \<le> pixel_index I n (fy b) (fx b)" "pixel_index I n (fy b) (fx b) < ?K" by simp_all
      have "int (length (top_data T1)) = ?K * num_channels I" using al1 by (simp add: allocated_def)
      from assign_data_total[OF ws this ip ix] obtain td where
        "assign_data I ?ip (pixel_index I n (fy b) (fx b)) (top_data T1) = Inr td" ..
      then show ?thesis using init dep True bp sp se gate
        by (simp add: pixel_def pixel_index_def Let_def)
    qed
  qed
  then obtain T' where run: "pixel A I (n * num_meta_data I) n h w T = Inr T'" ..
  have "same_outside I ?ip T T'" using pixel_effect[OF run] by simp
  then have "allocated I T'" using al by (simp add: same_outside_def allocated_def)
  then show ?thesis using run by blast
qed

lemma forward_total:
  assumes ws: "well_shaped I" and kf: "kernel_fits A I" and cap: "fle (threshold A) (Fin 1000)"
    and al: "allocated I T"
  shows "\<exists>T'. forward A I T = Inr T'"
proof -
  let ?M = "num_meta_data I"
  have row: "\<exists>t'. for_loop (\<lambda>w. pixel A I (n * ?M) n h w) 0 (width I - 1) t = Inr t' \<and> allocated I t'"
    if "0 \<le> n" "n < batch_size I" "0 \<le> h" "h < height I" "allocated I t" for n h t
  proof -
    have "\<exists>t'. for_loop (\<lambda>w. pixel A I (n * ?M) n h w) 0 (width I - 1) t = Inr t'"
    proof (rule for_loop_total[where Inv = "\<lambda>w t. allocated I t"])
      show "allocated I t" by (rule that)
    next
      fix w s
      assume "0 \<le> w" "w \<le> width I - 1" "allocated I s"
      then show "\<exists>s'. pixel A I (n * ?M) n h w s = Inr s' \<and> allocated I s'"
        using pixel_total[OF ws kf cap, of s n h w] that by (simp add: valid_pixel_def)
    qed
    then obtain t' where run: "for_loop (\<lambda>w. pixel A I (n * ?M) n h w) 0 (width I - 1) t = Inr t'" ..
    have "allocated I t'"
    proof (rule for_loop_rule[OF run, where Inv = "\<lambda>w t. allocated I t"])
      show "allocated I t" by (rule that)
    next
      fix w s s'
      assume "0 \<le> w" "w \<le> width I - 1" "allocated I s" "pixel A I (n * ?M) n h w s = Inr s'"
      then show "allocated I s'"
        using pixel_effect[of A I "n * ?M" n h w s s'] by (simp add: same_outside_def allocated_def)
    qed
    then show ?thesis using run by blast
  qed
  have rows: "\<exists>t'. for_loop (\<lambda>h. for_loop (\<lambda>w. pixel A I (n * ?M) n h w) 0 (width I - 1))
                     0 (height I - 1) t = Inr t' \<and> allocated I t'"
    if "0 \<le> n" "n < batch_size I" "allocated I t" for n t
  proof -
    let ?f = "\<lambda>h. for_loop (\<lambda>w. pixel A I (n * ?M) n h w) 0 (width I - 1)"
    have "\<exists>t'. for_loop ?f 0 (height I - 1) t = Inr t'"
    proof (rule for_loop_total[where Inv = "\<lambda>h t. allocated I t"])
      show "allocated I t" by (rule that)
    next
      fix h s
      assume "0 \<le> h" "h \<le> height I - 1" "allocated I s"
      then show "\<exists>s'. ?f h s = Inr s' \<and> allocated I s'"
        using row[of n h s] that by simp
    qed
    then obtain t' where run: "for_loop ?f 0 (height I - 1) t = Inr t'" ..
    have "allocated I t'"
    proof (rule for_loop_rule[OF run, where Inv = "\<lambda>h t. allocated I t"])
      show "allocated I t" by (rule that)
    next
      fix h s s'
      assume h: "0 \<le> h" "h \<le> height I - 1" and s: "allocated I s" and st: "?f h s = Inr s'"
      from row[of n h s] that h s obtain s'' where "?f h s = Inr s''" "allocated I s''" by auto
      then show "allocated I s'" using st by simp
    qed
    then show ?thesis using run by blast
  qed
  have "\<exists>S'. for_loop (batch_element A I) 0 (batch_size I - 1) (T, 0) = Inr S'"
  proof (rule for_loop_total[where Inv = "\<lambda>n S. allocated I (fst S) \<and> snd S = n * ?M"])
    show "allocated I (fst (T, 0::int)) \<and> snd (T, 0::int) = 0 * ?M" using al by simp
  next
    fix n S
    assume n: "0 \<le> n" "n \<le> batch_size I - 1" and inv: "allocated I (fst S) \<and> snd S = n * ?M"
    obtain t m where S: "S = (t, m)" by (cases S) auto
    from rows[of n t] n inv S obtain t' where
      "for_loop (\<lambda>h. for_loop (\<lambda>w. pixel A I (n * ?M) n h w) 0 (width I - 1)) 0 (height I - 1) t = Inr t'"
      "allocated I t'" by auto
    then show "\<exists>S'. batch_element A I n S = Inr S' \<and> allocated I (fst S') \<and> snd S' = (n + 1) * ?M"
      using S inv by (simp add: batch_element_def algebra_simps)
  qed
  then show ?thesis by (auto simp: forward_def split: sum.splits prod.splits)
qed

lemma Compute_total:
  assumes ranks: "length (dims bottom_data) = 4" "length (dims bottom_points) = 4"
      "length (dims bottom_depth) = 4" "length (dims bottom_meta_data) = 4"
    and ws: "well_shaped (flat_views bottom_data bottom_points bottom_depth bottom_meta_data)"
    and kf: "kernel_fits A (flat_views bottom_data bottom_points bottom_depth bottom_meta_data)"
    and cap: "fle (threshold A) (Fin 1000)"
  shows "\<exists>T'. Compute A bottom_data bottom_points bottom_depth bottom_meta_data u = Inr T'"
proof -
  let ?I = "flat_views bottom_data bottom_points bottom_depth bottom_meta_data"
  have "0 \<le> batch_size ?I * height ?I * width ?I * num_channels ?I"
    and "0 \<le> batch_size ?I * height ?I * width ?I * 3"
    using ws by (simp_all add: well_shaped_def)
  then have "allocated ?I (allocate_outputs ?I u)"
    by (simp add: allocated_def allocate_outputs_def)
  from forward_total[OF ws kf cap this] show ?thesis
    using ranks by (simp add: Compute_def Let_def)
qed

text \<open>
  With a threshold of at most 1000, the feature vector of a pixel with positive depth is
  either zero or copied from a valid neighbour inside the window and the image.
\<close>

lemma copy_source_under_cap:
  assumes run: "Compute A bottom_data bottom_points bottom_depth bottom_meta_data u = Inr T'"
    and I: "I = flat_views bottom_data bottom_points bottom_depth bottom_meta_data"
    and px: "valid_pixel I n h w"
    and cap: "fle (threshold A) (Fin 1000)"
    and dep: "rd (im_depth I) (pixel_index I n h w) = Inr d"
    and gt: "fgt d (Fin 0)"
  shows "\<exists>P b. search I (kernel_size A) n h w P = Inr b \<and>
     (if flt (dmin b) (threshold A)
      then in_window (kernel_size A) h w (fx b) (fy b) \<and> in_image I (fx b) (fy b) \<and>
           (\<exists>Q. valid_neighbour I n (fx b) (fy b) Q \<and> dmin b = dis3 P Q) \<and>
           copied_feature I (top_data T') (pixel_index I n h w) (pixel_index I n (fy b) (fx b))
      else zero_feature I (top_data T') (pixel_index I n h w))"
proof -
  from forward_post[OF Compute_forward[OF run I] px] dep gt
  obtain P b where se: "search I (kernel_size A) n h w P = Inr b"
    and out: "if flt (dmin b) (threshold A)
       then copied_feature I (top_data T') (pixel_index I n h w) (pixel_index I n (fy b) (fx b))
       else zero_feature I (top_data T') (pixel_index I n h w)"
    by (auto simp: pixel_post_def)
  show ?thesis
  proof (cases "flt (dmin b) (threshold A)")
    case False
    then show ?thesis using se out by (intro exI[of _ P] exI[of _ b]) simp
  next
    case True
    note g = gate_under_cap[OF se cap True]
    have "\<not> unmatched b" using g by (auto simp: unmatched_def in_image_def)
    then have "\<exists>Q. valid_neighbour I n (fx b) (fy b) Q \<and> dmin b = dis3 P Q"
      using search_best_of[OF se] unfolding best_of_def by blast
    then show ?thesis using se out True g by (intro exI[of _ P] exI[of _ b]) simp
  qed
qed

section \<open>Evaluating the forward pass on the examples\<close>

lemmas run_defs = Compute_def flat_views_def allocate_outputs_def dim_size_def forward_def
  batch_element_def for_loop_step for_loop_done pixel_def init_pixel_def wr_def rd_def
  backproject_def ray_def pose_row_def md_def eadd_def emul_def lift2_def of_int_fl_def
  store_point_def search_def window_loop_def int32_def neighbour_def prev_point_def
  assign_data_def dis3_def

lemmas grid_defs = grid_attrs_def grid_data_def grid_depth_def grid_meta_def grid_points_def

lemmas lone_defs = lone_attrs_def lone_data_def lone_points_def lone_depth_def lone_meta_def
  single_data_def single_points_def single_depth_def single_meta_def

lemmas three_defs = far_attrs_def three_data_def three_points_def three_depth_def three_meta_def

lemmas permute_defs = permute_tensor_def permute_batch_def batch_chunk_def permute_outputs_def

lemma grid_run:
  "Compute grid_attrs (grid_data [d0, d1, d2, d3, d4, d5, d6, d7, d8]) grid_points grid_depth grid_meta u =
     Inr \<lparr>top_data = [d0, d1, d2, d3, Fin 0, d5, d6, d7, d8], top_points = flat grid_points\<rparr>"
  by (simp add: run_defs grid_defs numeral_eq_Suc sqrt_less_num)

lemma grid_inputs_run:
  "Compute grid_attrs (grid_data [Fin 10, Fin 11, Fin 12, Fin 13, Fin 14, Fin 15, Fin 16, Fin 17, Fin 18])
     grid_points grid_depth grid_meta NaN =
   Inr \<lparr>top_data = [Fin 10, Fin 11, Fin 12, Fin 13, Fin 0, Fin 15, Fin 16, Fin 17, Fin 18],
        top_points = flat grid_points\<rparr>"
  by (rule grid_run)



section \<open>Properties of the forward pass\<close>

text \<open>
  C3: when \<open>Compute\<close> returns, every pixel whose depth is at most 0 has an all-zero
  output feature vector and not-a-number in the three channels of its output point.
  For such a pixel the loop body is the initialisation alone: no search, no read of the
  previous points, the metadata or the input features.
\<close>

theorem depth_gating:
  assumes run: "Compute A bottom_data bottom_points bottom_depth bottom_meta_data u = Inr T'"
    and I: "I = flat_views bottom_data bottom_points bottom_depth bottom_meta_data"
    and px: "valid_pixel I n h w"
    and dep: "rd (im_depth I) (pixel_index I n h w) = Inr depth"
    and le: "fle depth (Fin 0)"
  shows "zero_feature I (top_data T') (pixel_index I n h w) \<and>
         point_at (top_points T') (pixel_index I n h w) = Inr (NaN, NaN, NaN) \<and>
         (\<forall>m T0. pixel A I m n h w T0 = init_pixel I (pixel_index I n h w) T0)"
proof -
  have ng: "\<not> fgt depth (Fin 0)" using le by (cases depth) auto
  from forward_post[OF Compute_forward[OF run I] px]
  have "zero_feature I (top_data T') (pixel_index I n h w) \<and>
        point_at (top_points T') (pixel_index I n h w) = Inr (NaN, NaN, NaN)"
    using dep ng by (auto simp: pixel_post_def)
  moreover have "pixel A I m n h w T0 = init_pixel I (pixel_index I n h w) T0" for m T0
    using dep ng by (simp add: pixel_def pixel_index_def Let_def split: sum.splits)
  ultimately show ?thesis by blast
qed

theorem depth_gating_witness:
  "valid_pixel grid_inputs 0 1 1 \<and>
   rd (im_depth grid_inputs) (pixel_index grid_inputs 0 1 1) = Inr (Fin 0) \<and>
   fle (Fin 0) (Fin 0) \<and>
   zero_feature grid_inputs [Fin 10, Fin 11, Fin 12, Fin 13, Fin 0, Fin 15, Fin 16, Fin 17, Fin 18]
     (pixel_index grid_inputs 0 1 1) \<and>
   point_at (flat grid_points) (pixel_index grid_inputs 0 1 1) = Inr (NaN, NaN, NaN)"
proof -
  have px: "valid_pixel grid_inputs 0 1 1"
    by (simp add: valid_pixel_def grid_inputs_def flat_views_def dim_size_def grid_defs)
  have dep: "rd (im_depth grid_inputs) (pixel_index grid_inputs 0 1 1) = Inr (Fin 0)"
    by (simp add: pixel_index_def grid_inputs_def flat_views_def dim_size_def grid_defs rd_def)
  have le: "fle (Fin 0) (Fin 0)" by simp
  from depth_gating[OF grid_inputs_run grid_inputs_def px dep le]
  show ?thesis using px dep le by simp
qed

text \<open>
  C5: when \<open>Compute\<close> returns and the metadata record has at least 42 values, the
  output point of every pixel (column \<open>w\<close>, row \<open>h\<close>) with depth \<open>d > 0\<close> is the
  live-to-world pose (offsets 30 to 41, three rows of four) applied to \<open>d\<close> times the
  inverse intrinsic matrix (offsets 9 to 17) applied to \<open>(w, h, 1)\<close>, with the
  matrices taken from the record of the pixel's own batch element.
\<close>

theorem reprojector_output:
  assumes run: "Compute A bottom_data bottom_points bottom_depth bottom_meta_data u = Inr T'"
    and I: "I = flat_views bottom_data bottom_points bottom_depth bottom_meta_data"
    and px: "valid_pixel I n h w"
    and M: "42 \<le> num_meta_data I"
    and dep: "rd (im_depth I) (pixel_index I n h w) = Inr d"
    and gt: "fgt d (Fin 0)"
  shows "point_at (top_points T') (pixel_index I n h w) =
           Inr (reproject_spec (meta_record I n) w h d)"
proof -
  let ?m = "n * num_meta_data I"
  from forward_post[OF Compute_forward[OF run I] px] dep gt
  obtain P where bp: "backproject I ?m w h d = Inr P"
    and out: "point_at (top_points T') (pixel_index I n h w) = Inr P"
    by (auto simp: pixel_post_def)
  have m0: "0 \<le> ?m" using px M by (simp add: valid_pixel_def)
  have len: "?m + 41 < int (length (meta_data I))" using backproject_reads[OF bp] by simp
  from backproject_spec[OF m0 refl M len] bp
  have "P = reproject_spec (meta_record I n) w h d" by simp
  then show ?thesis using out by simp
qed

theorem reprojector_output_witness:
  "valid_pixel grid_inputs 0 1 2 \<and> 42 \<le> num_meta_data grid_inputs \<and>
   rd (im_depth grid_inputs) (pixel_index grid_inputs 0 1 2) = Inr (Fin 1) \<and>
   fgt (Fin 1) (Fin 0) \<and>
   point_at (flat grid_points) (pixel_index grid_inputs 0 1 2) = Inr (Fin 2, Fin 1, Fin 1) \<and>
   reproject_spec (meta_record grid_inputs 0) 2 1 (Fin 1) = (Fin 2, Fin 1, Fin 1)"
proof -
  have px: "valid_pixel grid_inputs 0 1 2"
    by (simp add: valid_pixel_def grid_inputs_def flat_views_def dim_size_def grid_defs)
  have M: "42 \<le> num_meta_data grid_inputs"
    by (simp add: grid_inputs_def flat_views_def dim_size_def grid_defs)
  have dep: "rd (im_depth grid_inputs) (pixel_index grid_inputs 0 1 2) = Inr (Fin 1)"
    by (simp add: pixel_index_def grid_inputs_def flat_views_def dim_size_def grid_defs rd_def)
  have gt: "fgt (Fin 1) (Fin 0)" by simp
  have pt: "point_at (flat grid_points) (pixel_index grid_inputs 0 1 2) = Inr (Fin 2, Fin 1, Fin 1)"
    by (simp add: point_at_def pixel_index_def grid_inputs_def flat_views_def dim_size_def grid_defs rd_def)
  from reprojector_output[OF grid_inputs_run grid_inputs_def px M dep gt] pt
  have "reproject_spec (meta_record grid_inputs 0) 2 1 (Fin 1) = (Fin 2, Fin 1, Fin 1)" by simp
  then show ?thesis using px M dep gt pt by simp
qed



text \<open>
  C6: the scenario of the specification. Depth \<open>[[1,1,1],[1,0,1],[1,1,1]]\<close>,
  \<open>kernel_size = 1\<close>, \<open>threshold = 1000\<close>, identity camera, previous points equal to
  the reprojection of the same grid (the output points are the previous points again).
  The centre pixel gets feature 0 and an undefined point; each of the other eight pixels
  gets its point \<open>(w, h, 1)\<close> and its own feature value, whatever that value is.
\<close>

theorem self_match_scenario:
  "Compute \<lparr>kernel_size = 1, threshold = Fin 1000\<rparr>
     \<lparr>dims = [1, 3, 3, 1], flat = [d0, d1, d2, d3, d4, d5, d6, d7, d8]\<rparr>
     grid_points
     \<lparr>dims = [1, 3, 3, 1], flat = [Fin 1, Fin 1, Fin 1,  Fin 1, Fin 0, Fin 1,  Fin 1, Fin 1, Fin 1]\<rparr>
     grid_meta u =
   Inr \<lparr>top_data = [d0, d1, d2, d3, Fin 0, d5, d6, d7, d8],
        top_points = [Fin 0, Fin 0, Fin 1,  Fin 1, Fin 0, Fin 1,  Fin 2, Fin 0, Fin 1,
                      Fin 0, Fin 1, Fin 1,  NaN, NaN, NaN,        Fin 2, Fin 1, Fin 1,
                      Fin 0, Fin 2, Fin 1,  Fin 1, Fin 2, Fin 1,  Fin 2, Fin 2, Fin 1]\<rparr> \<and>
   flat grid_points = [Fin 0, Fin 0, Fin 1,  Fin 1, Fin 0, Fin 1,  Fin 2, Fin 0, Fin 1,
                      Fin 0, Fin 1, Fin 1,  NaN, NaN, NaN,        Fin 2, Fin 1, Fin 1,
                      Fin 0, Fin 2, Fin 1,  Fin 1, Fin 2, Fin 1,  Fin 2, Fin 2, Fin 1]"
  using grid_run[of d0 d1 d2 d3 d4 d5 d6 d7 d8 u] by (simp add: grid_defs)

section \<open>Thresholds above the initial running minimum\<close>

text \<open>
  The running minimum starts at 1000 and the position at \<open>(-1, -1)\<close>. With a
  threshold of at most 1000 the copy branch is entered only with a recorded neighbour
  (\<open>gate_under_cap\<close>). With a larger threshold, which the constructor accepts, a
  pixel without a valid neighbour nearer than 1000 enters the copy branch with position
  \<open>(-1, -1)\<close> and reads the features at flat pixel index
  \<open>n * height * width - width - 1\<close>.
\<close>

text \<open>
  C1: two batch elements of two rows and one column, \<open>kernel_size = 0\<close>,
  \<open>threshold = 2000\<close>, every previous point undefined. The only pixel with positive
  depth is row 0 of batch element 1. It has no valid neighbour, yet its output feature
  is 7, the feature of row 0 of batch element 0.
\<close>

theorem threshold_gate_fails_above_1000:
  "ComputeFlowOp 0 (Fin 2000) = Inr \<lparr>kernel_size = 0, threshold = Fin 2000\<rparr> \<and>
   Compute \<lparr>kernel_size = 0, threshold = Fin 2000\<rparr>
     \<lparr>dims = [2, 2, 1, 1], flat = [Fin 7, Fin 8, Fin 9, Fin 10]\<rparr>
     \<lparr>dims = [2, 2, 1, 3], flat = replicate 12 NaN\<rparr>
     \<lparr>dims = [2, 2, 1, 1], flat = [Fin 0, Fin 0, Fin 1, Fin 0]\<rparr>
     \<lparr>dims = [2, 1, 1, 42], flat = replicate 84 (Fin 0)\<rparr> u =
   Inr \<lparr>top_data = [Fin 0, Fin 0, Fin 7, Fin 0],
        top_points = [NaN, NaN, NaN,  NaN, NaN, NaN,  Fin 0, Fin 0, Fin 0,  NaN, NaN, NaN]\<rparr>"
  by (simp add: ComputeFlowOp_def run_defs numeral_eq_Suc)

text \<open>
  C2: with \<open>kernel_size = 1\<close> and \<open>threshold = 5000\<close>, the pixel at row 0, column 0
  of batch element 1 has a non-zero output feature (2, read at flat pixel index 1)
  while the search ended at \<open>(fx, fy) = (-1, -1)\<close>, outside the image. On a single
  pixel the same read is at flat index \<open>-2\<close>, outside the feature tensor.
\<close>

theorem copy_reads_outside_image_and_tensor:
  "ComputeFlowOp 1 (Fin 5000) = Inr lone_attrs \<and>
   Compute lone_attrs lone_data lone_points lone_depth lone_meta u =
     Inr \<lparr>top_data = [Fin 0, Fin 0, Fin 0, Fin 0, Fin 2, Fin 0, Fin 0, Fin 0],
          top_points = [NaN, NaN, NaN,  NaN, NaN, NaN,  NaN, NaN, NaN,  NaN, NaN, NaN,
                        Fin 0, Fin 0, Fin 0,  NaN, NaN, NaN,  NaN, NaN, NaN,  NaN, NaN, NaN]\<rparr> \<and>
   search (flat_views lone_data lone_points lone_depth lone_meta) 1 1 0 0 (Fin 0, Fin 0, Fin 0) =
     Inr \<lparr>dmin = Fin 1000, fx = - 1, fy = - 1\<rparr> \<and>
   in_image (flat_views lone_data lone_points lone_depth lone_meta) (- 1) (- 1) = False \<and>
   pixel_index (flat_views lone_data lone_points lone_depth lone_meta) 1 (- 1) (- 1) = 1 \<and>
   Compute lone_attrs single_data single_points single_depth single_meta u = Inl OutOfBounds \<and>
   pixel_index (flat_views single_data single_points single_depth single_meta) 0 (- 1) (- 1) = - 2"
  by (simp add: ComputeFlowOp_def run_defs lone_defs in_image_def pixel_index_def numeral_eq_Suc)

text \<open>
  C7: three batch elements of one pixel, \<open>threshold = 2000\<close>. Exchanging batch
  elements 0 and 1 in all four inputs changes the output feature of batch element 2
  from 5 to 6, while the exchanged output of the first run still has 5 there.
\<close>

theorem batch_permutation_changes_output:
  "Compute far_attrs three_data three_points three_depth three_meta u =
     Inr \<lparr>top_data = [Fin 0, Fin 0, Fin 5],
          top_points = [NaN, NaN, NaN,  NaN, NaN, NaN,  Fin 0, Fin 0, Fin 0]\<rparr> \<and>
   Compute far_attrs (permute_tensor [1, 0, 2] three_data) (permute_tensor [1, 0, 2] three_points)
       (permute_tensor [1, 0, 2] three_depth) (permute_tensor [1, 0, 2] three_meta) u =
     Inr \<lparr>top_data = [Fin 0, Fin 0, Fin 6],
          top_points = [NaN, NaN, NaN,  NaN, NaN, NaN,  Fin 0, Fin 0, Fin 0]\<rparr> \<and>
   permute_outputs [1, 0, 2] 1
       \<lparr>top_data = [Fin 0, Fin 0, Fin 5],
        top_points = [NaN, NaN, NaN,  NaN, NaN, NaN,  Fin 0, Fin 0, Fin 0]\<rparr> =
     \<lparr>top_data = [Fin 0, Fin 0, Fin 5],
      top_points = [NaN, NaN, NaN,  NaN, NaN, NaN,  Fin 0, Fin 0, Fin 0]\<rparr> \<and>
   (case Compute far_attrs three_data three_points three_depth three_meta u of
      Inl e \<Rightarrow> Inl e
    | Inr T \<Rightarrow> Inr (permute_outputs [1, 0, 2] 1 T)) \<noteq>
   Compute far_attrs (permute_tensor [1, 0, 2] three_data) (permute_tensor [1, 0, 2] three_points)
       (permute_tensor [1, 0, 2] three_depth) (permute_tensor [1, 0, 2] three_meta) u"
  by (simp add: run_defs three_defs permute_defs numeral_eq_Suc)

end
